theory Spec2Isabelle
  imports Complex_Main "HOL-Library.Word" "HOL-Library.Multiset"
begin

section \<open>The JavaScript values the adapter handles\<close>

text \<open>
  The adapter is one file, \<^verbatim>\<open>index.js\<close>, in two versions; the later one adds Basic
  authentication in front of the routes and a timeout on the upstream fetch, and is the
  one followed here. Its handler of \<^verbatim>\<open>GET /odata/Transactions\<close> and the two helpers
  \<^verbatim>\<open>normalizeItem\<close> and \<^verbatim>\<open>parseSimpleFilter\<close> are embedded function by function. What
  the code leaves to the language (conversions, regular expressions, array methods) is
  written out after ECMAScript, so that every exception the code can raise is a branch of
  the model. The authentication middleware, the metadata route and the serialization of
  the response to JSON text are not part of it.

  A string is a sequence of UTF-16 code units.
\<close>

type_synonym jschar = "16 word"
type_synonym jsstring = "jschar list"

definition js :: "string \<Rightarrow> jsstring" where
  "js s = map (\<lambda>c. of_nat (of_char c)) s"

definition quote :: jschar where
  "quote = 0x27"

text \<open>
  \<^verbatim>\<open>\s\<close> in a regular expression, the characters \<^verbatim>\<open>trim()\<close> strips and the white space
  around a numeric string are the same set: WhiteSpace and LineTerminator.
\<close>

definition is_space :: "jschar \<Rightarrow> bool" where
  "is_space c \<longleftrightarrow>
     c = 0x09 \<or> c = 0x0A \<or> c = 0x0B \<or> c = 0x0C \<or> c = 0x0D \<or> c = 0x20 \<or> c = 0xA0 \<or>
     c = 0x1680 \<or> (0x2000 \<le> c \<and> c \<le> 0x200A) \<or> c = 0x2028 \<or> c = 0x2029 \<or>
     c = 0x202F \<or> c = 0x205F \<or> c = 0x3000 \<or> c = 0xFEFF"

definition is_digit :: "jschar \<Rightarrow> bool" where
  "is_digit c \<longleftrightarrow> 0x30 \<le> c \<and> c \<le> 0x39"

definition is_word :: "jschar \<Rightarrow> bool" where
  "is_word c \<longleftrightarrow>
     (0x61 \<le> c \<and> c \<le> 0x7A) \<or> (0x41 \<le> c \<and> c \<le> 0x5A) \<or> is_digit c \<or> c = 0x5F"

definition trim :: "jsstring \<Rightarrow> jsstring" where
  "trim s = rev (dropWhile is_space (rev (dropWhile is_space s)))"

subsection \<open>Numbers\<close>

text \<open>
  A number is NaN, an infinity or a finite value. Finite values are kept as the exact
  rational a numeral denotes: the program never computes with numbers (it reads,
  compares, truncates and prints them), so the only step left out is the rounding of a
  numeral to binary64 when it is read. Negative zero is zero: the program cannot tell
  them apart.
\<close>

datatype jsnum = NaN | PInf | NInf | Fin rat

fun neg :: "jsnum \<Rightarrow> jsnum" where
  "neg NaN = NaN"
| "neg PInf = NInf"
| "neg NInf = PInf"
| "neg (Fin q) = Fin (- q)"

definition pow10 :: "int \<Rightarrow> rat" where
  "pow10 e = (if 0 \<le> e then 10 ^ nat e else 1 / 10 ^ nat (- e))"

definition digit_of :: "jschar \<Rightarrow> nat" where
  "digit_of c =
     (if is_digit c then unat c - 0x30
      else if 0x61 \<le> c \<and> c \<le> 0x66 then unat c - 0x61 + 10
      else unat c - 0x41 + 10)"

definition radix_val :: "nat \<Rightarrow> jsstring \<Rightarrow> nat" where
  "radix_val b ds = foldl (\<lambda>a c. b * a + digit_of c) 0 ds"

definition is_hex :: "jschar \<Rightarrow> bool" where
  "is_hex c \<longleftrightarrow> is_digit c \<or> (0x61 \<le> c \<and> c \<le> 0x66) \<or> (0x41 \<le> c \<and> c \<le> 0x46)"

text \<open>NonDecimalIntegerLiteral: \<^verbatim>\<open>0x\<close>, \<^verbatim>\<open>0o\<close> or \<^verbatim>\<open>0b\<close> and at least one digit.\<close>

definition non_decimal :: "jsstring \<Rightarrow> nat option" where
  "non_decimal t =
     (case t of
        z # x # ds \<Rightarrow>
          if z \<noteq> 0x30 \<or> ds = [] then None
          else if (x = 0x78 \<or> x = 0x58) \<and> list_all is_hex ds then Some (radix_val 16 ds)
          else if (x = 0x6F \<or> x = 0x4F) \<and> list_all (\<lambda>c. 0x30 \<le> c \<and> c \<le> 0x37) ds
            then Some (radix_val 8 ds)
          else if (x = 0x62 \<or> x = 0x42) \<and> list_all (\<lambda>c. c = 0x30 \<or> c = 0x31) ds
            then Some (radix_val 2 ds)
          else None
      | _ \<Rightarrow> None)"

text \<open>ExponentPart, when there is one: \<^verbatim>\<open>e\<close> or \<^verbatim>\<open>E\<close>, an optional sign, digits.\<close>

definition exponent_part :: "jsstring \<Rightarrow> int option" where
  "exponent_part r =
     (case r of
        [] \<Rightarrow> Some 0
      | c # r' \<Rightarrow>
          if c \<noteq> 0x65 \<and> c \<noteq> 0x45 then None
          else
            (let ds = (case r' of [] \<Rightarrow> [] | d # r'' \<Rightarrow> if d = 0x2B \<or> d = 0x2D then r'' else r');
                 minus = (case r' of [] \<Rightarrow> False | d # _ \<Rightarrow> d = 0x2D)
             in if ds = [] \<or> \<not> list_all is_digit ds then None
                else Some (if minus then - int (radix_val 10 ds) else int (radix_val 10 ds))))"

text \<open>StrUnsignedDecimalLiteral.\<close>

definition unsigned_decimal :: "jsstring \<Rightarrow> jsnum" where
  "unsigned_decimal u =
     (if u = js ''Infinity'' then PInf
      else
        (let ip = takeWhile is_digit u;
             r1 = dropWhile is_digit u;
             dotted = (r1 \<noteq> [] \<and> hd r1 = 0x2E);
             fp = (if dotted then takeWhile is_digit (tl r1) else []);
             r2 = (if dotted then dropWhile is_digit (tl r1) else r1)
         in if ip = [] \<and> fp = [] then NaN
            else
              (case exponent_part r2 of
                 None \<Rightarrow> NaN
               | Some e \<Rightarrow>
                   Fin (of_nat (radix_val 10 (ip @ fp)) * pow10 (e - int (length fp))))))"

text \<open>
  StringToNumber, the conversion \<^verbatim>\<open>Number(s)\<close> applies to a string: the empty or blank
  string is 0, a string that is no numeric literal is NaN.
\<close>

definition StringToNumber :: "jsstring \<Rightarrow> jsnum" where
  "StringToNumber s =
     (let t = trim s
      in if t = [] then Fin 0
         else
           (case non_decimal t of
              Some n \<Rightarrow> Fin (of_nat n)
            | None \<Rightarrow>
                if hd t = 0x2D then neg (unsigned_decimal (tl t))
                else if hd t = 0x2B then unsigned_decimal (tl t)
                else unsigned_decimal t))"

text \<open>
  Number::toString for radix 10. With \<open>q = s \<times> 10\<^bsup>n-k\<^esup>\<close>, \<open>s\<close> of \<open>k\<close> digits and not
  divisible by 10: plain digits for \<open>n\<close> up to 21, a leading \<^verbatim>\<open>0.\<close> down to \<open>n = -5\<close>,
  exponent notation outside. The digits are those of the rational itself, which is what
  the shortest round-trip digits of a binary64 value read from a numeral of at most 15
  significant digits are.
\<close>

fun nat_digits :: "nat \<Rightarrow> jsstring" where
  "nat_digits n =
     (if n < 10 then [of_nat (0x30 + n)] else nat_digits (n div 10) @ [of_nat (0x30 + n mod 10)])"

fun frac_places :: "nat \<Rightarrow> rat \<Rightarrow> nat" where
  "frac_places 0 q = 0"
| "frac_places (Suc fuel) q =
     (if of_int \<lfloor>q\<rfloor> = q then 0 else Suc (frac_places fuel (q * 10)))"

fun trailing_zeros :: "nat \<Rightarrow> nat" where
  "trailing_zeros n =
     (if n = 0 \<or> n mod 10 \<noteq> 0 then 0 else Suc (trailing_zeros (n div 10)))"

definition positive_to_string :: "rat \<Rightarrow> jsstring" where
  "positive_to_string q =
     (let m = frac_places (nat (snd (quotient_of q))) q;
          z = nat \<lfloor>q * 10 ^ m\<rfloor>;
          t = trailing_zeros z;
          ds = nat_digits (z div 10 ^ t);
          k = int (length ds);
          n = k + int t - int m;
          e = n - 1;
          ex = [0x65, if e < 0 then 0x2D else 0x2B] @ nat_digits (nat \<bar>e\<bar>)
      in if k \<le> n \<and> n \<le> 21 then ds @ replicate (nat (n - k)) 0x30
         else if 0 < n \<and> n \<le> 21 then take (nat n) ds @ [0x2E] @ drop (nat n) ds
         else if - 6 < n \<and> n \<le> 0 then [0x30, 0x2E] @ replicate (nat (- n)) 0x30 @ ds
         else if k = 1 then ds @ ex
         else take 1 ds @ [0x2E] @ drop 1 ds @ ex)"

fun NumberToString :: "jsnum \<Rightarrow> jsstring" where
  "NumberToString NaN = js ''NaN''"
| "NumberToString PInf = js ''Infinity''"
| "NumberToString NInf = js ''-Infinity''"
| "NumberToString (Fin q) =
     (if q = 0 then js ''0''
      else if q < 0 then 0x2D # positive_to_string (- q)
      else positive_to_string q)"

subsection \<open>Values and exceptions\<close>

text \<open>
  What the upstream sends is JSON; an object is the list of its properties, each key
  once (were a key repeated, the first entry is the one that is read). A record read back
  by name can also yield \<^verbatim>\<open>undefined\<close> (no such property) or a member inherited from
  \<^verbatim>\<open>Object.prototype\<close>.
\<close>

datatype json =
    JNull
  | JBool bool
  | JNum jsnum
  | JStr jsstring
  | JArr "json list"
  | JObj "(jsstring \<times> json) list"

type_synonym obj = "(jsstring \<times> json) list"

datatype jsval = Undefined | Json json | Inherited jsstring

datatype error = Error (err_name: jsstring) (err_message: jsstring)

definition TypeError :: "jsstring \<Rightarrow> error" where
  "TypeError msg = Error (js ''TypeError'') msg"

definition not_primitive :: error where
  "not_primitive = TypeError (js ''Cannot convert object to primitive value'')"

definition andThen :: "error + 'a \<Rightarrow> ('a \<Rightarrow> error + 'b) \<Rightarrow> error + 'b" where
  "andThen m f = (case m of Inl e \<Rightarrow> Inl e | Inr x \<Rightarrow> f x)"

text \<open>
  The own properties of a record come first, then those of \<^verbatim>\<open>Object.prototype\<close>.
\<close>

definition object_prototype :: "jsstring list" where
  "object_prototype =
     map js [''constructor'', ''__defineGetter__'', ''__defineSetter__'', ''hasOwnProperty'',
       ''__lookupGetter__'', ''__lookupSetter__'', ''isPrototypeOf'', ''propertyIsEnumerable'',
       ''toString'', ''valueOf'', ''__proto__'', ''toLocaleString'']"

definition get_property :: "obj \<Rightarrow> jsstring \<Rightarrow> jsval" where
  "get_property r k =
     (case map_of r k of
        Some v \<Rightarrow> Json v
      | None \<Rightarrow> if k \<in> set object_prototype then Inherited k else Undefined)"

text \<open>
  ToString. An array joins its elements with commas, \<^verbatim>\<open>null\<close> elements as empty
  strings. An object parsed from JSON has no callable property of its own, so its
  conversion to a primitive (OrdinaryToPrimitive) finds \<^verbatim>\<open>Object.prototype.toString\<close>,
  unless a key \<^verbatim>\<open>toString\<close> of its own hides it: then no method returns a primitive
  and a TypeError is thrown. Either hint gives the same result.
\<close>

fun json_to_string :: "json \<Rightarrow> error + jsstring"
  and join :: "json list \<Rightarrow> error + jsstring" where
  "json_to_string JNull = Inr (js ''null'')"
| "json_to_string (JBool b) = Inr (if b then js ''true'' else js ''false'')"
| "json_to_string (JNum n) = Inr (NumberToString n)"
| "json_to_string (JStr s) = Inr s"
| "json_to_string (JArr xs) = join xs"
| "json_to_string (JObj kvs) =
     (if map_of kvs (js ''toString'') = None then Inr (js ''[object Object]'')
      else Inl not_primitive)"
| "join [] = Inr []"
| "join (x # xs) =
     (case (if x = JNull then Inr [] else json_to_string x) of
        Inl e \<Rightarrow> Inl e
      | Inr a \<Rightarrow>
          if xs = [] then Inr a
          else (case join xs of Inl e \<Rightarrow> Inl e | Inr b \<Rightarrow> Inr (a @ [0x2C] @ b)))"

definition inherited_to_string :: "jsstring \<Rightarrow> jsstring" where
  "inherited_to_string k =
     (if k = js ''__proto__'' then js ''[object Object]''
      else js ''function '' @ (if k = js ''constructor'' then js ''Object'' else k)
        @ js ''() { [native code] }'')"

fun ToString :: "jsval \<Rightarrow> error + jsstring" where
  "ToString Undefined = Inr (js ''undefined'')"
| "ToString (Json v) = json_to_string v"
| "ToString (Inherited k) = Inr (inherited_to_string k)"

text \<open>ToPrimitive leaves a primitive as it is and turns an object into its string.\<close>

fun ToPrimitive :: "jsval \<Rightarrow> error + jsval" where
  "ToPrimitive (Json (JArr xs)) = andThen (join xs) (\<lambda>s. Inr (Json (JStr s)))"
| "ToPrimitive (Json (JObj kvs)) =
     andThen (json_to_string (JObj kvs)) (\<lambda>s. Inr (Json (JStr s)))"
| "ToPrimitive (Inherited k) = Inr (Json (JStr (inherited_to_string k)))"
| "ToPrimitive v = Inr v"

text \<open>ToNumber, which is \<^verbatim>\<open>Number(v)\<close>.\<close>

fun primitive_to_number :: "jsval \<Rightarrow> jsnum" where
  "primitive_to_number Undefined = NaN"
| "primitive_to_number (Json JNull) = Fin 0"
| "primitive_to_number (Json (JBool b)) = Fin (if b then 1 else 0)"
| "primitive_to_number (Json (JNum n)) = n"
| "primitive_to_number (Json (JStr s)) = StringToNumber s"
| "primitive_to_number v = NaN"

definition ToNumber :: "jsval \<Rightarrow> error + jsnum" where
  "ToNumber v = andThen (ToPrimitive v) (\<lambda>p. Inr (primitive_to_number p))"

text \<open>Strict equality of two numbers, and the order of numbers and of strings.\<close>

definition num_eq :: "jsnum \<Rightarrow> jsnum \<Rightarrow> bool" where
  "num_eq a b \<longleftrightarrow> a \<noteq> NaN \<and> a = b"

fun num_lt :: "jsnum \<Rightarrow> jsnum \<Rightarrow> bool" where
  "num_lt NaN b = False"
| "num_lt a NaN = False"
| "num_lt PInf b = False"
| "num_lt a NInf = False"
| "num_lt NInf b = True"
| "num_lt a PInf = True"
| "num_lt (Fin p) (Fin q) = (p < q)"

fun str_lt :: "jsstring \<Rightarrow> jsstring \<Rightarrow> bool" where
  "str_lt [] [] = False"
| "str_lt [] (y # ys) = True"
| "str_lt (x # xs) [] = False"
| "str_lt (x # xs) (y # ys) = (x < y \<or> (x = y \<and> str_lt xs ys))"

text \<open>
  The relational comparison \<^verbatim>\<open>x < y\<close>: both sides to primitives, two strings compared
  by code units, anything else as numbers, and false when a side is NaN.
\<close>

definition less_than :: "jsval \<Rightarrow> jsval \<Rightarrow> error + bool" where
  "less_than x y =
     andThen (ToPrimitive x) (\<lambda>px. andThen (ToPrimitive y) (\<lambda>py.
       (case (px, py) of
          (Json (JStr a), Json (JStr b)) \<Rightarrow> Inr (str_lt a b)
        | _ \<Rightarrow> Inr (num_lt (primitive_to_number px) (primitive_to_number py)))))"

section \<open>The filter parser\<close>

subsection \<open>Regular expressions\<close>

text \<open>
  The three patterns of \<^verbatim>\<open>parseSimpleFilter\<close> use literals, character classes under a
  greedy quantifier, optional parts and capturing groups. \<open>Rep p lo hi\<close> is the class
  \<open>p\<close> repeated \<open>lo\<close> to \<open>hi\<close> times (\<open>None\<close>: unbounded). The matcher returns, in
  the order a backtracking engine tries them, every way to match a prefix of the input:
  the rest of the input and the groups captured so far.
\<close>

datatype regex =
    Lit jschar
  | Rep "jschar \<Rightarrow> bool" nat "nat option"
  | Cat regex regex
  | Opt regex
  | Grp nat regex

type_synonym captures = "nat \<Rightarrow> jsstring option"

fun rx :: "regex \<Rightarrow> jsstring \<times> captures \<Rightarrow> (jsstring \<times> captures) list" where
  "rx (Lit c) (s, m) = (case s of [] \<Rightarrow> [] | x # xs \<Rightarrow> if x = c then [(xs, m)] else [])"
| "rx (Rep p lo hi) (s, m) =
     (let k = length (takeWhile p s);
          most = (case hi of None \<Rightarrow> k | Some h \<Rightarrow> min h k)
      in map (\<lambda>n. (drop n s, m)) (rev [lo ..< Suc most]))"
| "rx (Cat a b) (s, m) = concat (map (rx b) (rx a (s, m)))"
| "rx (Opt a) (s, m) = rx a (s, m) @ [(s, m)]"
| "rx (Grp i a) (s, m) =
     map (\<lambda>(s', m'). (s', m'(i \<mapsto> take (length s - length s') s))) (rx a (s, m))"

fun seq :: "regex list \<Rightarrow> regex" where
  "seq [] = Rep (\<lambda>c. False) 0 (Some 0)"
| "seq [r] = r"
| "seq (r # rs) = Cat r (seq rs)"

text \<open>\<^verbatim>\<open>s.match(/^r$/)\<close>: the first way to match that uses up the whole string.\<close>

definition regex_match :: "regex \<Rightarrow> jsstring \<Rightarrow> captures option" where
  "regex_match r s =
     (case filter (\<lambda>(rest, m). rest = []) (rx r (s, \<lambda>i. None)) of
        [] \<Rightarrow> None
      | (rest, m) # alternatives \<Rightarrow> Some m)"

definition some :: "(jschar \<Rightarrow> bool) \<Rightarrow> regex" where
  "some p = Rep p 1 None"

definition field_chars :: "jschar \<Rightarrow> bool" where
  "field_chars c \<longleftrightarrow> is_word c \<or> is_digit c \<or> c = 0x5F"

text \<open>\<^verbatim>\<open>/^([\w\d_]+)\s+eq\s+'([^']*)'$/\<close>\<close>

definition string_pattern :: regex where
  "string_pattern =
     seq [Grp 1 (some field_chars), some is_space, Lit 0x65, Lit 0x71, some is_space,
          Lit quote, Grp 2 (Rep (\<lambda>c. c \<noteq> quote) 0 None), Lit quote]"

text \<open>\<^verbatim>\<open>/^([\w\d_]+)\s+eq\s+([+-]?\d+(\.\d+)?)$/\<close>\<close>

definition number_pattern :: regex where
  "number_pattern =
     seq [Grp 1 (some field_chars), some is_space, Lit 0x65, Lit 0x71, some is_space,
          Grp 2 (seq [Opt (Rep (\<lambda>c. c = 0x2B \<or> c = 0x2D) 1 (Some 1)), some is_digit,
                      Opt (Grp 3 (seq [Lit 0x2E, some is_digit]))])]"

text \<open>\<^verbatim>\<open>/^([\w\d_]+)\s+eq\s+(\d{4}-\d{2}-\d{2})$/\<close>\<close>

definition date_pattern :: regex where
  "date_pattern =
     seq [Grp 1 (some field_chars), some is_space, Lit 0x65, Lit 0x71, some is_space,
          Grp 2 (seq [Rep is_digit 4 (Some 4), Lit 0x2D, Rep is_digit 2 (Some 2), Lit 0x2D,
                      Rep is_digit 2 (Some 2)])]"

subsection \<open>parseSimpleFilter\<close>

datatype filter_type = TString | TNumber | TDate

record parsed_filter =
  field :: jsstring
  "value" :: json
  type :: filter_type

text \<open>
  A capture group that took no part in the match reads as \<^verbatim>\<open>undefined\<close>; groups 1 and
  2 take part in every match of the three patterns.
\<close>

definition group :: "captures \<Rightarrow> nat \<Rightarrow> jsstring" where
  "group m i = (case m i of Some s \<Rightarrow> s | None \<Rightarrow> js ''undefined'')"

definition parseSimpleFilter :: "jsstring option \<Rightarrow> parsed_filter option" where
  "parseSimpleFilter filter' =
     (case filter' of
        None \<Rightarrow> None
      | Some raw \<Rightarrow>
          if raw = [] then None
          else
            (let trimmed = trim raw
             in case regex_match string_pattern trimmed of
                  Some m \<Rightarrow> Some \<lparr>field = group m 1, value = JStr (group m 2), type = TString\<rparr>
                | None \<Rightarrow>
                    (case regex_match number_pattern trimmed of
                       Some m \<Rightarrow>
                         Some \<lparr>field = group m 1, value = JNum (StringToNumber (group m 2)),
                               type = TNumber\<rparr>
                     | None \<Rightarrow>
                         (case regex_match date_pattern trimmed of
                            Some m \<Rightarrow>
                              Some \<lparr>field = group m 1, value = JStr (group m 2), type = TDate\<rparr>
                          | None \<Rightarrow> None))))"

section \<open>The normalizer\<close>

text \<open>
  \<^verbatim>\<open>item.k\<close> for one of the twelve declared names, none of which a built-in prototype
  defines: the item's own property, or nothing (\<^verbatim>\<open>undefined\<close>); reading a property of
  \<^verbatim>\<open>null\<close> throws.
\<close>

definition read_field :: "json \<Rightarrow> jsstring \<Rightarrow> error + json option" where
  "read_field item k =
     (case item of
        JNull \<Rightarrow>
          Inl (TypeError (js ''Cannot read properties of null (reading '' @ [quote] @ k
            @ [quote] @ js '')''))
      | JObj kvs \<Rightarrow> Inr (map_of kvs k)
      | _ \<Rightarrow> Inr None)"

definition toNum :: "json option \<Rightarrow> error + json" where
  "toNum v =
     (case v of
        None \<Rightarrow> Inr JNull
      | Some j \<Rightarrow>
          if j = JNull \<or> j = JStr [] then Inr JNull
          else andThen (ToNumber (Json j)) (\<lambda>n. Inr (JNum n)))"

definition or_null :: "json option \<Rightarrow> json" where
  "or_null v = (case v of None \<Rightarrow> JNull | Some j \<Rightarrow> j)"

text \<open>
  The object literal \<^verbatim>\<open>normalizeItem\<close> returns, entry by entry: \<open>Numeric\<close> for
  \<^verbatim>\<open>k: toNum(item.k)\<close>, \<open>Text\<close> for \<^verbatim>\<open>k: item.k ?? null\<close>.
\<close>

datatype field_kind = Numeric | Text

definition declared :: "(jsstring \<times> field_kind) list" where
  "declared =
     [(js ''id'', Numeric), (js ''outlet'', Text), (js ''date'', Text), (js ''day'', Text),
      (js ''guest_count'', Numeric), (js ''category'', Text), (js ''quantity'', Numeric),
      (js ''cost_price'', Numeric), (js ''selling_price'', Numeric),
      (js ''total_sales'', Numeric), (js ''total_cost_price'', Numeric),
      (js ''profit'', Numeric)]"

fun entries :: "json \<Rightarrow> (jsstring \<times> field_kind) list \<Rightarrow> error + obj" where
  "entries item [] = Inr []"
| "entries item ((k, kind) # rest) =
     (case read_field item k of
        Inl e \<Rightarrow> Inl e
      | Inr v \<Rightarrow>
          (case (case kind of Numeric \<Rightarrow> toNum v | Text \<Rightarrow> Inr (or_null v)) of
             Inl e \<Rightarrow> Inl e
           | Inr x \<Rightarrow>
               (case entries item rest of Inl e \<Rightarrow> Inl e | Inr r \<Rightarrow> Inr ((k, x) # r))))"

definition normalizeItem :: "json \<Rightarrow> error + obj" where
  "normalizeItem item = entries item declared"

section \<open>Array methods\<close>

fun map_array :: "(json \<Rightarrow> error + obj) \<Rightarrow> json list \<Rightarrow> error + obj list" where
  "map_array f [] = Inr []"
| "map_array f (x # xs) =
     (case f x of
        Inl e \<Rightarrow> Inl e
      | Inr y \<Rightarrow> (case map_array f xs of Inl e \<Rightarrow> Inl e | Inr ys \<Rightarrow> Inr (y # ys)))"

fun filter_array :: "(obj \<Rightarrow> error + bool) \<Rightarrow> obj list \<Rightarrow> error + obj list" where
  "filter_array f [] = Inr []"
| "filter_array f (x # xs) =
     (case f x of
        Inl e \<Rightarrow> Inl e
      | Inr keep \<Rightarrow>
          (case filter_array f xs of
             Inl e \<Rightarrow> Inl e
           | Inr ys \<Rightarrow> Inr (if keep then x # ys else ys)))"

text \<open>
  \<^verbatim>\<open>sort\<close> with a comparator is stable (ECMAScript 2019). It is an insertion sort here:
  every stable sort gives this result when the comparator is consistent, and the order
  under an inconsistent comparator is left to the implementation by the language.
  An exception of the comparator ends the sort.
\<close>

fun insert_sorted :: "(obj \<Rightarrow> obj \<Rightarrow> error + int) \<Rightarrow> obj \<Rightarrow> obj list \<Rightarrow> error + obj list" where
  "insert_sorted cmp x [] = Inr [x]"
| "insert_sorted cmp x (y # ys) =
     (case cmp x y of
        Inl e \<Rightarrow> Inl e
      | Inr c \<Rightarrow>
          if c \<le> 0 then Inr (x # y # ys)
          else (case insert_sorted cmp x ys of Inl e \<Rightarrow> Inl e | Inr zs \<Rightarrow> Inr (y # zs)))"

fun sort_array :: "(obj \<Rightarrow> obj \<Rightarrow> error + int) \<Rightarrow> obj list \<Rightarrow> error + obj list" where
  "sort_array cmp [] = Inr []"
| "sort_array cmp (x # xs) =
     (case sort_array cmp xs of Inl e \<Rightarrow> Inl e | Inr ys \<Rightarrow> insert_sorted cmp x ys)"

text \<open>
  \<^verbatim>\<open>slice(start, end)\<close>: each bound goes through ToIntegerOrInfinity (NaN is 0, a
  fraction is cut off) and a negative bound counts from the end.
\<close>

definition to_integer :: "rat \<Rightarrow> int" where
  "to_integer q = (if 0 \<le> q then \<lfloor>q\<rfloor> else \<lceil>q\<rceil>)"

fun relative_index :: "nat \<Rightarrow> jsnum \<Rightarrow> nat" where
  "relative_index len NaN = 0"
| "relative_index len NInf = 0"
| "relative_index len PInf = len"
| "relative_index len (Fin q) =
     (if to_integer q < 0 then nat (max (int len + to_integer q) 0) else min (nat (to_integer q)) len)"

definition slice :: "'a list \<Rightarrow> jsnum \<Rightarrow> jsnum option \<Rightarrow> 'a list" where
  "slice xs start end' =
     (let len = length xs;
          k = relative_index len start;
          final = (case end' of None \<Rightarrow> len | Some e \<Rightarrow> relative_index len e)
      in take (final - k) (drop k xs))"

text \<open>\<^verbatim>\<open>s.split(" ")\<close>: the pieces between the U+0020 characters.\<close>

fun split_acc :: "jschar \<Rightarrow> jsstring \<Rightarrow> jsstring \<Rightarrow> jsstring list" where
  "split_acc sep acc [] = [rev acc]"
| "split_acc sep acc (x # xs) =
     (if x = sep then rev acc # split_acc sep [] xs else split_acc sep (x # acc) xs)"

definition split :: "jsstring \<Rightarrow> jschar \<Rightarrow> jsstring list" where
  "split s sep = split_acc sep [] s"

section \<open>The query pipeline\<close>

record request =
  top_param :: "jsstring option"
  skip_param :: "jsstring option"
  orderby_param :: "jsstring option"
  filter_param :: "jsstring option"
  count_param :: "jsstring option"
  protocol :: jsstring
  host :: "jsstring option"

text \<open>
  The query parameters \<^verbatim>\<open>$top\<close>, \<^verbatim>\<open>$skip\<close>, \<^verbatim>\<open>$orderby\<close>, \<^verbatim>\<open>$filter\<close> and \<^verbatim>\<open>$count\<close>
  are strings or absent. A parameter is falsy when it is absent or the empty string.
\<close>

definition truthy :: "jsstring option \<Rightarrow> bool" where
  "truthy p \<longleftrightarrow> (case p of None \<Rightarrow> False | Some s \<Rightarrow> s \<noteq> [])"

definition text_of :: "jsstring option \<Rightarrow> jsstring" where
  "text_of p = (case p of None \<Rightarrow> js ''undefined'' | Some s \<Rightarrow> s)"

text \<open>
  The callback of \<^verbatim>\<open>items.filter\<close>. It compares the number or the string it has made of
  the field with the value of the predicate: \<^verbatim>\<open>===\<close> between two primitives (objects,
  which \<^verbatim>\<open>===\<close> compares by identity, do not occur on either side).
\<close>

fun strict_equal :: "json \<Rightarrow> json \<Rightarrow> bool" where
  "strict_equal (JNum a) (JNum b) = num_eq a b"
| "strict_equal (JStr a) (JStr b) = (a = b)"
| "strict_equal (JBool a) (JBool b) = (a = b)"
| "strict_equal JNull JNull = True"
| "strict_equal a b = False"

definition startsWith :: "jsstring \<Rightarrow> jsstring \<Rightarrow> bool" where
  "startsWith s p \<longleftrightarrow> take (length p) s = p"

definition filter_callback :: "parsed_filter \<Rightarrow> obj \<Rightarrow> error + bool" where
  "filter_callback parsedFilter i =
     (let val = get_property i (field parsedFilter)
      in if type parsedFilter = TNumber
           then andThen (ToNumber val) (\<lambda>n. Inr (strict_equal (JNum n) (value parsedFilter)))
         else if type parsedFilter = TDate
           then andThen (ToString val) (\<lambda>s.
                  andThen (json_to_string (value parsedFilter)) (\<lambda>p. Inr (startsWith s p)))
         else andThen (ToString val) (\<lambda>s. Inr (strict_equal (JStr s) (value parsedFilter))))"

text \<open>
  The comparator of \<^verbatim>\<open>items.sort\<close>, and the destructuring
  \<^verbatim>\<open>const [field, direction] = $orderby.split(" ")\<close>.
\<close>

definition compare :: "jsstring \<Rightarrow> int \<Rightarrow> obj \<Rightarrow> obj \<Rightarrow> error + int" where
  "compare fld dir a b =
     andThen (less_than (get_property b fld) (get_property a fld)) (\<lambda>greater.
       if greater then Inr dir
       else andThen (less_than (get_property a fld) (get_property b fld)) (\<lambda>less.
              if less then Inr (- dir) else Inr 0))"

definition orderby_field :: "jsstring \<Rightarrow> jsstring" where
  "orderby_field orderby = text_of (case split orderby 0x20 of [] \<Rightarrow> None | f # ps \<Rightarrow> Some f)"

definition direction :: "jsstring \<Rightarrow> jsstring option" where
  "direction orderby = (case split orderby 0x20 of f # d # ps \<Rightarrow> Some d | _ \<Rightarrow> None)"

definition dir :: "jsstring \<Rightarrow> int" where
  "dir orderby = (if direction orderby = Some (js ''desc'') then - 1 else 1)"

text \<open>
  Arrays are mutable and \<^verbatim>\<open>sort\<close> works in place, so the arrays live in a store and
  the variable \<^verbatim>\<open>items\<close> holds the address of one. \<^verbatim>\<open>map\<close>, \<^verbatim>\<open>filter\<close> and
  \<^verbatim>\<open>slice\<close> allocate their result.
\<close>

record store =
  cells :: "nat \<Rightarrow> obj list"
  fresh :: nat

definition empty_store :: store where
  "empty_store = \<lparr>cells = (\<lambda>a. []), fresh = 0\<rparr>"

definition alloc :: "store \<Rightarrow> obj list \<Rightarrow> store \<times> nat" where
  "alloc st xs = (st\<lparr>cells := (cells st)(fresh st := xs), fresh := Suc (fresh st)\<rparr>, fresh st)"

definition apply_filter :: "request \<Rightarrow> store \<times> nat \<Rightarrow> error + store \<times> nat" where
  "apply_filter req = (\<lambda>(st, items).
     case parseSimpleFilter (filter_param req) of
       None \<Rightarrow> Inr (st, items)
     | Some parsedFilter \<Rightarrow>
         andThen (filter_array (filter_callback parsedFilter) (cells st items))
           (\<lambda>kept. Inr (alloc st kept)))"

definition apply_orderby :: "request \<Rightarrow> store \<times> nat \<Rightarrow> error + store \<times> nat" where
  "apply_orderby req = (\<lambda>(st, items).
     if truthy (orderby_param req) then
       (let orderby = text_of (orderby_param req)
        in andThen (sort_array (compare (orderby_field orderby) (dir orderby)) (cells st items))
             (\<lambda>sorted. Inr (st\<lparr>cells := (cells st)(items := sorted)\<rparr>, items)))
     else Inr (st, items))"

definition apply_skip :: "request \<Rightarrow> store \<times> nat \<Rightarrow> error + store \<times> nat" where
  "apply_skip req = (\<lambda>(st, items).
     if truthy (skip_param req)
     then Inr (alloc st (slice (cells st items) (StringToNumber (text_of (skip_param req))) None))
     else Inr (st, items))"

definition apply_top :: "request \<Rightarrow> store \<times> nat \<Rightarrow> error + store \<times> nat" where
  "apply_top req = (\<lambda>(st, items).
     if truthy (top_param req)
     then Inr (alloc st
            (slice (cells st items) (Fin 0) (Some (StringToNumber (text_of (top_param req))))))
     else Inr (st, items))"

definition pipeline :: "request \<Rightarrow> store \<times> nat \<Rightarrow> error + store \<times> nat" where
  "pipeline req s =
     andThen (apply_filter req s) (\<lambda>s1.
       andThen (apply_orderby req s1) (\<lambda>s2.
         andThen (apply_skip req s2) (apply_top req)))"

section \<open>The endpoint\<close>

text \<open>
  The upstream fetch either settles after some milliseconds, with a rejection or with a
  response (a status and a body that parses as JSON or does not), or never settles. The
  handler arms a timer of 10 seconds that aborts the fetch, which then rejects with an
  error named \<^verbatim>\<open>AbortError\<close>; the timer is cleared once the fetch has settled, so the
  body is taken as it arrives. (The older version of the file has the same handler
  without the timer.)
\<close>

datatype payload = Malformed error | Parsed json

datatype settled = Rejected error | Responded nat payload

datatype fetch = Settles nat settled | Hangs

definition AbortError :: error where
  "AbortError = Error (js ''AbortError'') (js ''The user aborted a request.'')"

definition await_fetch :: "fetch \<Rightarrow> settled" where
  "await_fetch f =
     (case f of
        Hangs \<Rightarrow> Rejected AbortError
      | Settles ms outcome \<Rightarrow> if ms < 10000 then outcome else Rejected AbortError)"

datatype body =
    ErrorBody jsstring "nat option"
  | ODataBody jsstring "obj list" "nat option"

record response =
  status :: nat
  body :: body

definition catch :: "error \<Rightarrow> response" where
  "catch e =
     (if err_name e = js ''AbortError''
      then \<lparr>status = 504, body = ErrorBody (js ''Upstream timeout'') None\<rparr>
      else \<lparr>status = 500, body = ErrorBody (err_message e) None\<rparr>)"

definition odata_context :: "request \<Rightarrow> jsstring" where
  "odata_context req =
     protocol req @ js ''://'' @ text_of (host req) @ js ''/odata/$metadata#Transactions''"

definition odataResponse :: "request \<Rightarrow> obj list \<Rightarrow> body" where
  "odataResponse req items =
     ODataBody (odata_context req) items
       (if count_param req = Some (js ''true'') then Some (length items) else None)"

text \<open>\<^verbatim>\<open>Array.isArray(data) ? data : []\<close>\<close>

definition as_array :: "json \<Rightarrow> json list" where
  "as_array data = (case data of JArr xs \<Rightarrow> xs | _ \<Rightarrow> [])"

definition handler :: "request \<Rightarrow> fetch \<Rightarrow> response" where
  "handler req f =
     (case await_fetch f of
        Rejected e \<Rightarrow> catch e
      | Responded upstream_status p \<Rightarrow>
          if \<not> (200 \<le> upstream_status \<and> upstream_status < 300)
          then \<lparr>status = 500, body = ErrorBody (js ''Upstream API error'') (Some upstream_status)\<rparr>
          else
            (case p of
               Malformed e \<Rightarrow> catch e
             | Parsed data \<Rightarrow>
                 (case andThen (map_array normalizeItem (as_array data))
                         (\<lambda>normalized. pipeline req (alloc empty_store normalized)) of
                    Inl e \<Rightarrow> catch e
                  | Inr (st, items) \<Rightarrow>
                      \<lparr>status = 200, body = odataResponse req (cells st items)\<rparr>)))"

section \<open>Notions used to state the properties\<close>

text \<open>
  The array \<^verbatim>\<open>items\<close> holds after running statements of the handler on a store in
  which it holds \<open>xs\<close>, and the result set of the whole pipeline.
\<close>

definition after :: "(store \<times> nat \<Rightarrow> error + store \<times> nat) \<Rightarrow> obj list \<Rightarrow> error + obj list" where
  "after statements xs =
     andThen (statements (alloc empty_store xs)) (\<lambda>(st, items). Inr (cells st items))"

definition result_set :: "request \<Rightarrow> obj list \<Rightarrow> error + obj list" where
  "result_set req xs = after (pipeline req) xs"

text \<open>The four stages, each as an operation from a list to a new list.\<close>

definition filter_stage :: "request \<Rightarrow> obj list \<Rightarrow> error + obj list" where
  "filter_stage req xs =
     (case parseSimpleFilter (filter_param req) of
        None \<Rightarrow> Inr xs
      | Some parsedFilter \<Rightarrow> filter_array (filter_callback parsedFilter) xs)"

definition order_stage :: "request \<Rightarrow> obj list \<Rightarrow> error + obj list" where
  "order_stage req xs =
     (if truthy (orderby_param req)
      then sort_array (compare (orderby_field (text_of (orderby_param req)))
             (dir (text_of (orderby_param req)))) xs
      else Inr xs)"

definition skip_stage :: "request \<Rightarrow> obj list \<Rightarrow> obj list" where
  "skip_stage req xs =
     (if truthy (skip_param req) then slice xs (StringToNumber (text_of (skip_param req))) None
      else xs)"

definition top_stage :: "request \<Rightarrow> obj list \<Rightarrow> obj list" where
  "top_stage req xs =
     (if truthy (top_param req)
      then slice xs (Fin 0) (Some (StringToNumber (text_of (top_param req))))
      else xs)"

text \<open>
  A request without query parameters, the normalized record of \<^verbatim>\<open>{id: n, outlet: o}\<close>
  and that of \<^verbatim>\<open>{id: n}\<close> for a number \<open>n\<close>.
\<close>

definition plain_request :: request where
  "plain_request =
     \<lparr>top_param = None, skip_param = None, orderby_param = None, filter_param = None,
      count_param = None, protocol = js ''http'', host = Some (js ''localhost:3000'')\<rparr>"

definition transaction :: "json \<Rightarrow> json \<Rightarrow> obj" where
  "transaction n outlet =
     [(js ''id'', n), (js ''outlet'', outlet), (js ''date'', JNull), (js ''day'', JNull),
      (js ''guest_count'', JNull), (js ''category'', JNull), (js ''quantity'', JNull),
      (js ''cost_price'', JNull), (js ''selling_price'', JNull), (js ''total_sales'', JNull),
      (js ''total_cost_price'', JNull), (js ''profit'', JNull)]"

definition with_id :: "int \<Rightarrow> obj" where
  "with_id n = transaction (JNum (Fin (of_int n))) JNull"

definition sale :: "int \<Rightarrow> string \<Rightarrow> obj" where
  "sale n outlet = transaction (JNum (Fin (of_int n))) (JStr (js outlet))"

text \<open>The fields \<^verbatim>\<open>value\<close> and \<^verbatim>\<open>@odata.count\<close> of a response, when it has them.\<close>

definition odata_value :: "response \<Rightarrow> obj list" where
  "odata_value r = (case body r of ODataBody c items n \<Rightarrow> items | ErrorBody m s \<Rightarrow> [])"

definition odata_count :: "response \<Rightarrow> nat option" where
  "odata_count r = (case body r of ODataBody c items n \<Rightarrow> n | ErrorBody m s \<Rightarrow> None)"

subsection \<open>The filter grammar, in the words of the specification\<close>

text \<open>
  The strings a regular expression accepts, and the three forms
  \<^verbatim>\<open><field> eq '<string>'\<close>, \<^verbatim>\<open><field> eq <number>\<close> and \<^verbatim>\<open><field> eq <YYYY-MM-DD>\<close>:
  a field of word characters, white space on both sides of \<^verbatim>\<open>eq\<close>, then the value.
\<close>

fun lang :: "regex \<Rightarrow> jsstring set" where
  "lang (Lit c) = {[c]}"
| "lang (Rep p lo hi) =
     {u. list_all p u \<and> lo \<le> length u \<and> (case hi of None \<Rightarrow> True | Some h \<Rightarrow> length u \<le> h)}"
| "lang (Cat a b) = {u @ v | u v. u \<in> lang a \<and> v \<in> lang b}"
| "lang (Opt a) = insert [] (lang a)"
| "lang (Grp i a) = lang a"

definition grammar_field :: "jsstring \<Rightarrow> bool" where
  "grammar_field f \<longleftrightarrow> f \<noteq> [] \<and> list_all is_word f"

definition blank :: "jsstring \<Rightarrow> bool" where
  "blank w \<longleftrightarrow> w \<noteq> [] \<and> list_all is_space w"

definition clause :: "jsstring \<Rightarrow> jsstring \<Rightarrow> bool" where
  "clause s v \<longleftrightarrow>
     (\<exists>f w1 w2. s = f @ w1 @ js ''eq'' @ w2 @ v \<and> grammar_field f \<and> blank w1 \<and> blank w2)"

definition digits :: "jsstring \<Rightarrow> bool" where
  "digits ds \<longleftrightarrow> ds \<noteq> [] \<and> list_all is_digit ds"

definition string_form :: "jsstring \<Rightarrow> bool" where
  "string_form s \<longleftrightarrow> (\<exists>x. clause s ([quote] @ x @ [quote]) \<and> quote \<notin> set x)"

definition number_form :: "jsstring \<Rightarrow> bool" where
  "number_form s \<longleftrightarrow>
     (\<exists>sign ip fr. clause s (sign @ ip @ fr) \<and> (sign = [] \<or> sign = [0x2B] \<or> sign = [0x2D]) \<and>
        digits ip \<and> (fr = [] \<or> (\<exists>fp. fr = 0x2E # fp \<and> digits fp)))"

definition date_form :: "jsstring \<Rightarrow> bool" where
  "date_form s \<longleftrightarrow>
     (\<exists>y m d. clause s (y @ [0x2D] @ m @ [0x2D] @ d) \<and>
        length y = 4 \<and> length m = 2 \<and> length d = 2 \<and>
        list_all is_digit y \<and> list_all is_digit m \<and> list_all is_digit d)"

subsection \<open>The normalizer\<close>

text \<open>
  A value converts to a primitive unless it is an object with a key \<^verbatim>\<open>toString\<close> of
  its own, or an array that holds one (at any depth). A raw record is convertible when
  the values of its numeric fields are.
\<close>

fun plain :: "json \<Rightarrow> bool" and plain_all :: "json list \<Rightarrow> bool" where
  "plain (JArr xs) = plain_all xs"
| "plain (JObj kvs) = (map_of kvs (js ''toString'') = None)"
| "plain v = True"
| "plain_all [] = True"
| "plain_all (x # xs) = (plain x \<and> plain_all xs)"

definition declared_keys :: "jsstring list" where
  "declared_keys =
     map js [''id'', ''outlet'', ''date'', ''day'', ''guest_count'', ''category'', ''quantity'',
       ''cost_price'', ''selling_price'', ''total_sales'', ''total_cost_price'', ''profit'']"

definition numeric_fields :: "jsstring list" where
  "numeric_fields =
     map js [''id'', ''guest_count'', ''quantity'', ''cost_price'', ''selling_price'',
       ''total_sales'', ''total_cost_price'', ''profit'']"

definition convertible :: "obj \<Rightarrow> bool" where
  "convertible raw =
     list_all (\<lambda>k. case map_of raw k of None \<Rightarrow> True | Some v \<Rightarrow> plain v) numeric_fields"

text \<open>What an entry of the normalized record is when the conversion does not throw.\<close>

definition entry_ok :: "obj \<Rightarrow> jsstring \<times> field_kind \<Rightarrow> bool" where
  "entry_ok raw e = (case e of (k, kind) \<Rightarrow>
     kind = Text \<or> (case map_of raw k of None \<Rightarrow> True | Some v \<Rightarrow> plain v))"

definition sample_raw :: obj where
  "sample_raw =
     [(js ''id'', JStr (js ''7'')), (js ''quantity'', JStr []), (js ''outlet'', JStr (js ''Airport'')),
      (js ''guest_count'', JArr [JNum (Fin 3)]), (js ''remark'', JObj [(js ''toString'', JNull)])]"

subsection \<open>Records that convert\<close>




subsection \<open>The array the pipeline was given\<close>

text \<open>
  What the array that held the normalized records holds once the pipeline has run on it.
\<close>

definition given_after :: "request \<Rightarrow> obj list \<Rightarrow> error + obj list" where
  "given_after req xs =
     (case alloc empty_store xs of
        (st, given) \<Rightarrow> andThen (pipeline req (st, given)) (\<lambda>(st', items). Inr (cells st' given)))"

subsection \<open>Ordering\<close>





section \<open>Conversions: auxiliary facts\<close>

lemma to_string_plain:
  "(if plain v then \<exists>s. json_to_string v = Inr s else json_to_string v = Inl not_primitive)"
  "(if plain_all vs then \<exists>s. join vs = Inr s else join vs = Inl not_primitive)"
proof (induction v and vs rule: json_to_string_join.induct)
  case (8 x xs)
  show ?case
  proof (cases "x = JNull")
    case True
    with 8 show ?thesis by (cases "xs = []") (auto split: if_splits)
  next
    case False
    with 8 show ?thesis by (cases "xs = []") (auto split: if_splits)
  qed
qed auto

lemma ToPrimitive_plain:
  "(if plain v then \<exists>p. ToPrimitive (Json v) = Inr p else ToPrimitive (Json v) = Inl not_primitive)"
proof (cases v)
  case (JArr xs)
  with to_string_plain(2)[of xs] show ?thesis by (auto simp: andThen_def split: if_splits)
next
  case (JObj kvs)
  with to_string_plain(1)[of "JObj kvs"] show ?thesis by (auto simp: andThen_def split: if_splits)
qed auto

lemma ToNumber_plain:
  "(if plain v then \<exists>n. ToNumber (Json v) = Inr n else ToNumber (Json v) = Inl not_primitive)"
  using ToPrimitive_plain[of v] by (auto simp: ToNumber_def andThen_def split: if_splits)

lemma js_inj: "js a = js b \<longleftrightarrow> a = b"
proof -
  have "inj (\<lambda>c. of_nat (of_char c) :: jschar)"
  proof (rule injI)
    fix x y assume "(of_nat (of_char x) :: jschar) = of_nat (of_char y)"
    then have "unat (of_nat (of_char x) :: jschar) = unat (of_nat (of_char y) :: jschar)" by simp
    moreover have "(of_char c :: nat) < 2 ^ 16" for c
      by (rule less_trans[OF nat_of_char_less_256]) simp
    ultimately have "(of_char x :: nat) = of_char y"
      by (simp add: unat_of_nat take_bit_nat_eq_self)
    then show "x = y" by simp
  qed
  then show ?thesis unfolding js_def by (simp add: inj_map_eq_map)
qed






section \<open>The query pipeline: auxiliary facts\<close>

lemma held_filter:
  "(case apply_filter req (st, a) of Inl e \<Rightarrow> Inl e | Inr (st', a') \<Rightarrow> Inr (cells st' a')) =
     filter_stage req (cells st a)"
  by (auto simp: apply_filter_def filter_stage_def andThen_def alloc_def
      split: option.splits sum.splits)

lemma held_orderby:
  "(case apply_orderby req (st, a) of Inl e \<Rightarrow> Inl e | Inr (st', a') \<Rightarrow> Inr (cells st' a')) =
     order_stage req (cells st a)"
  by (auto simp: apply_orderby_def order_stage_def andThen_def Let_def split: sum.splits)

lemma held_skip:
  "apply_skip req (st, a) = Inr (st', a') \<Longrightarrow> cells st' a' = skip_stage req (cells st a)"
  by (auto simp: apply_skip_def skip_stage_def alloc_def split: if_splits)

lemma held_top:
  "apply_top req (st, a) = Inr (st', a') \<Longrightarrow> cells st' a' = top_stage req (cells st a)"
  by (auto simp: apply_top_def top_stage_def alloc_def split: if_splits)

lemma skip_total: "\<exists>s'. apply_skip req s = Inr s'"
  by (cases s) (auto simp: apply_skip_def)

lemma top_total: "\<exists>s'. apply_top req s = Inr s'"
  by (cases s) (auto simp: apply_top_def)

lemma held_pipeline:
  "(case pipeline req (st, a) of Inl e \<Rightarrow> Inl e | Inr (st', a') \<Rightarrow> Inr (cells st' a')) =
     andThen (filter_stage req (cells st a)) (\<lambda>kept.
       andThen (order_stage req kept) (\<lambda>sorted. Inr (top_stage req (skip_stage req sorted))))"
proof (cases "apply_filter req (st, a)")
  case (Inl e)
  with held_filter[of req st a] have "filter_stage req (cells st a) = Inl e" by simp
  with Inl show ?thesis by (simp add: pipeline_def andThen_def)
next
  case (Inr s1)
  obtain st1 a1 where s1: "s1 = (st1, a1)" by (cases s1)
  with Inr held_filter[of req st a] have f: "filter_stage req (cells st a) = Inr (cells st1 a1)"
    by simp
  show ?thesis
  proof (cases "apply_orderby req (st1, a1)")
    case (Inl e)
    with held_orderby[of req st1 a1] have "order_stage req (cells st1 a1) = Inl e" by simp
    with Inl Inr s1 f show ?thesis by (simp add: pipeline_def andThen_def)
  next
    case (Inr s2)
    obtain st2 a2 where s2: "s2 = (st2, a2)" by (cases s2)
    with Inr held_orderby[of req st1 a1] have o: "order_stage req (cells st1 a1) = Inr (cells st2 a2)"
      by simp
    obtain st3 a3 where s3: "apply_skip req (st2, a2) = Inr (st3, a3)"
      using skip_total[of req "(st2, a2)"] by auto
    obtain st4 a4 where s4: "apply_top req (st3, a3) = Inr (st4, a4)"
      using top_total[of req "(st3, a3)"] by auto
    have "pipeline req (st, a) = Inr (st4, a4)"
      using \<open>apply_filter req (st, a) = Inr s1\<close> s1 Inr s2 s3 s4
      by (simp add: pipeline_def andThen_def)
    moreover have "cells st4 a4 = top_stage req (skip_stage req (cells st2 a2))"
      using held_skip[OF s3] held_top[OF s4] by simp
    ultimately show ?thesis using f o by (simp add: andThen_def)
  qed
qed

lemma cells_alloc: "alloc st xs = (st', a) \<Longrightarrow> cells st' a = xs"
  by (auto simp: alloc_def)




lemma slice_to: "slice xs (Fin 0) (Some e) = take (relative_index (length xs) e) xs"
  by (simp add: slice_def Let_def to_integer_def)


lemma top_stage_truthy:
  "top_param req = Some s \<Longrightarrow> s \<noteq> [] \<Longrightarrow>
     top_stage req xs = take (relative_index (length xs) (StringToNumber s)) xs"
  by (simp add: top_stage_def truthy_def text_of_def slice_to)




lemma result_set_stages:
  "result_set req xs =
     andThen (filter_stage req xs) (\<lambda>kept.
       andThen (order_stage req kept) (\<lambda>sorted. Inr (top_stage req (skip_stage req sorted))))"
proof -
  obtain st a where s: "alloc empty_store xs = (st, a)" by (cases "alloc empty_store xs")
  have "result_set req xs =
      (case pipeline req (st, a) of Inl e \<Rightarrow> Inl e | Inr (st', a') \<Rightarrow> Inr (cells st' a'))"
    by (simp add: result_set_def after_def andThen_def s split: sum.splits)
  then show ?thesis
    by (simp only: held_pipeline cells_alloc[OF s])
qed














lemma filter_array_keeps:
  assumes "filter_array f xs = Inr ys" "x \<in> set xs" "f x = Inr True"
  shows "x \<in> set ys"
  using assms
proof (induction xs arbitrary: ys)
  case Nil
  then show ?case by simp
next
  case (Cons a xs)
  from Cons.prems(1) obtain b zs where b: "f a = Inr b" "filter_array f xs = Inr zs"
    "ys = (if b then a # zs else zs)"
    by (auto split: sum.splits)
  show ?case
  proof (cases "x = a")
    case True
    with Cons.prems(3) b show ?thesis by simp
  next
    case False
    with Cons.prems(2) have "x \<in> set xs" by simp
    from Cons.IH[OF b(2) this Cons.prems(3)] b(3) show ?thesis by simp
  qed
qed

section \<open>The filter parser: properties\<close>

lemma rx_sound:
  "(s', m') \<in> set (rx r (s, m)) \<Longrightarrow> \<exists>u. s = u @ s' \<and> u \<in> lang r"
proof (induction r arbitrary: s m s' m')
  case (Lit c)
  then show ?case by (cases s) (auto split: if_splits)
next
  case (Rep p lo hi)
  let ?k = "length (takeWhile p s)"
  let ?most = "case hi of None \<Rightarrow> ?k | Some h \<Rightarrow> min h ?k"
  from Rep have "(s', m') \<in> set (map (\<lambda>n. (drop n s, m)) (rev [lo ..< Suc ?most]))"
    by (simp add: Let_def del: upt_Suc)
  then have "(s', m') \<in> (\<lambda>n. (drop n s, m)) ` {lo ..< Suc ?most}"
    by (simp only: set_map set_rev set_upt)
  then obtain n where n: "lo \<le> n" "n \<le> ?most" "s' = drop n s"
    by auto
  have mk: "?most \<le> ?k" by (simp split: option.splits)
  have kl: "?k \<le> length s" by (rule length_takeWhile_le)
  have nk: "n \<le> ?k" using n(2) mk by (rule le_trans)
  have pre: "take n (xs @ ys) = take n xs" if "n \<le> length xs" for xs ys :: jsstring
    using that by simp
  have tk: "take n s = take n (takeWhile p s)"
    using pre[OF nk, of "dropWhile p s"] by (simp only: takeWhile_dropWhile_id)
  have "list_all p (take n s)"
    unfolding tk list_all_iff
  proof
    fix x assume "x \<in> set (take n (takeWhile p s))"
    then have "x \<in> set (takeWhile p s)" by (rule in_set_takeD)
    then show "p x" by (rule set_takeWhileD[THEN conjunct2])
  qed
  moreover have "length (take n s) = n" using nk kl by simp
  moreover have "case hi of None \<Rightarrow> True | Some h \<Rightarrow> n \<le> h"
    using n(2) by (simp split: option.splits)
  ultimately have "take n s \<in> lang (Rep p lo hi)" using n(1) by (simp split: option.splits)
  moreover have "s = take n s @ s'" using n(3) by simp
  ultimately show ?case by blast
next
  case (Cat a b)
  then obtain s1 m1 where 1: "(s1, m1) \<in> set (rx a (s, m))" and 2: "(s', m') \<in> set (rx b (s1, m1))"
    by auto
  from Cat.IH(1)[OF 1] obtain u where u: "s = u @ s1" "u \<in> lang a" by blast
  from Cat.IH(2)[OF 2] obtain v where v: "s1 = v @ s'" "v \<in> lang b" by blast
  have "s = (u @ v) @ s'" using u v by simp
  moreover have "u @ v \<in> lang (Cat a b)" using u v by auto
  ultimately show ?case by blast
next
  case (Opt a)
  from Opt.prems have "(s', m') \<in> set (rx a (s, m)) \<or> s' = s" by auto
  then show ?case
  proof
    assume "(s', m') \<in> set (rx a (s, m))"
    from Opt.IH[OF this] show ?thesis by auto
  next
    assume "s' = s"
    then have "s = [] @ s'" by simp
    then show ?thesis by (metis lang.simps(4) insertI1)
  qed
next
  case (Grp i a)
  from Grp.prems obtain m0 where "(s', m0) \<in> set (rx a (s, m))" by auto
  from Grp.IH[OF this] show ?case by simp
qed

lemma regex_match_sound: "regex_match r s = Some m \<Longrightarrow> s \<in> lang r"
proof -
  assume a: "regex_match r s = Some m"
  then obtain rest m' where "(rest, m') \<in> set (filter (\<lambda>(rest, m). rest = []) (rx r (s, \<lambda>i. None)))"
    unfolding regex_match_def by (cases "filter (\<lambda>(rest, m). rest = []) (rx r (s, \<lambda>i. None))") auto
  then have "([], m') \<in> set (rx r (s, \<lambda>i. None))" by auto
  from rx_sound[OF this] show ?thesis by auto
qed

lemma field_chars_word: "field_chars c = is_word c"
  by (auto simp: field_chars_def is_word_def)

lemma js_eq: "js ''eq'' = [0x65, 0x71]"
  by (simp add: js_def)

lemma lang_CatE:
  assumes "u \<in> lang (Cat a b)"
  obtains x y where "u = x @ y" "x \<in> lang a" "y \<in> lang b"
  using assms by auto

lemma lang_clause:
  assumes "t \<in> lang (Cat (Grp 1 (some field_chars)) (Cat (some is_space) (Cat (Lit 0x65)
             (Cat (Lit 0x71) (Cat (some is_space) R)))))"
  shows "\<exists>v. clause t v \<and> v \<in> lang R"
proof -
  from assms obtain f w1 w2 v where t: "t = f @ w1 @ [0x65] @ [0x71] @ w2 @ v"
    and f: "list_all field_chars f" "1 \<le> length f"
    and w1: "list_all is_space w1" "1 \<le> length w1"
    and w2: "list_all is_space w2" "1 \<le> length w2"
    and v: "v \<in> lang R"
    by (auto simp: some_def)
  have "grammar_field f" using f by (auto simp: grammar_field_def field_chars_word list_all_iff)
  moreover have "blank w1" "blank w2" using w1 w2 by (auto simp: blank_def)
  moreover have "t = f @ w1 @ js ''eq'' @ w2 @ v" using t by (simp add: js_eq)
  ultimately have "clause t v" unfolding clause_def by blast
  with v show ?thesis by blast
qed

lemma string_pattern_sound:
  assumes "regex_match string_pattern t = Some m"
  shows "string_form t"
proof -
  have "t \<in> lang string_pattern" using assms by (rule regex_match_sound)
  then obtain v where v: "clause t v"
    "v \<in> lang (Cat (Lit quote) (Cat (Grp 2 (Rep (\<lambda>c. c \<noteq> quote) 0 None)) (Lit quote)))"
    unfolding string_pattern_def seq.simps by (blast dest: lang_clause)
  from v(2) obtain x where "v = [quote] @ x @ [quote]" "quote \<notin> set x"
    by (auto simp: list_all_iff)
  with v(1) show ?thesis unfolding string_form_def by blast
qed

lemma lang_sign:
  assumes "sg \<in> lang (Opt (Rep (\<lambda>c. c = 0x2B \<or> c = 0x2D) 1 (Some 1)))"
  shows "sg = [] \<or> sg = [0x2B] \<or> sg = [0x2D]"
proof (cases sg)
  case Nil
  then show ?thesis by simp
next
  case (Cons c cs)
  with assms have "cs = []" "c = 0x2B \<or> c = 0x2D" by auto
  with Cons show ?thesis by auto
qed

lemma lang_digits: "ds \<in> lang (some is_digit) \<Longrightarrow> digits ds"
  by (auto simp: some_def digits_def)

lemma lang_fraction:
  assumes "fr \<in> lang (Opt (Grp 3 (Cat (Lit 0x2E) (some is_digit))))"
  shows "fr = [] \<or> (\<exists>fp. fr = 0x2E # fp \<and> digits fp)"
proof -
  from assms have "fr = [] \<or> fr \<in> lang (Cat (Lit 0x2E) (some is_digit))" by simp
  then show ?thesis
  proof
    assume "fr \<in> lang (Cat (Lit 0x2E) (some is_digit))"
    then obtain x fp where "fr = x @ fp" "x \<in> lang (Lit 0x2E)" "fp \<in> lang (some is_digit)"
      by (rule lang_CatE)
    then have "fr = 0x2E # fp" "digits fp" by (simp_all add: lang_digits)
    then show ?thesis by blast
  qed simp
qed

lemma number_pattern_sound:
  assumes "regex_match number_pattern t = Some m"
  shows "number_form t"
proof -
  have "t \<in> lang number_pattern" using assms by (rule regex_match_sound)
  then obtain v where v: "clause t v"
    "v \<in> lang (Grp 2 (seq [Opt (Rep (\<lambda>c. c = 0x2B \<or> c = 0x2D) 1 (Some 1)), some is_digit,
                      Opt (Grp 3 (seq [Lit 0x2E, some is_digit]))]))"
    unfolding number_pattern_def seq.simps by (blast dest: lang_clause)
  from v(2) have "v \<in> lang (Cat (Opt (Rep (\<lambda>c. c = 0x2B \<or> c = 0x2D) 1 (Some 1)))
      (Cat (some is_digit) (Opt (Grp 3 (Cat (Lit 0x2E) (some is_digit))))))"
    by (simp only: seq.simps lang.simps)
  then obtain sg r where 1: "v = sg @ r"
    "sg \<in> lang (Opt (Rep (\<lambda>c. c = 0x2B \<or> c = 0x2D) 1 (Some 1)))"
    "r \<in> lang (Cat (some is_digit) (Opt (Grp 3 (Cat (Lit 0x2E) (some is_digit)))))"
    by (rule lang_CatE)
  from 1(3) obtain ip fr where 2: "r = ip @ fr" "ip \<in> lang (some is_digit)"
    "fr \<in> lang (Opt (Grp 3 (Cat (Lit 0x2E) (some is_digit))))"
    by (rule lang_CatE)
  have "clause t (sg @ ip @ fr)" using v(1) 1(1) 2(1) by simp
  then show ?thesis
    unfolding number_form_def
    using lang_sign[OF 1(2)] lang_digits[OF 2(2)] lang_fraction[OF 2(3)] by blast
qed

lemma lang_exactly:
  assumes "ds \<in> lang (Rep is_digit n (Some n))"
  shows "length ds = n \<and> list_all is_digit ds"
  using assms by auto

lemma date_pattern_sound:
  assumes "regex_match date_pattern t = Some m"
  shows "date_form t"
proof -
  have "t \<in> lang date_pattern" using assms by (rule regex_match_sound)
  then obtain v where v: "clause t v"
    "v \<in> lang (Grp 2 (seq [Rep is_digit 4 (Some 4), Lit 0x2D, Rep is_digit 2 (Some 2), Lit 0x2D,
                      Rep is_digit 2 (Some 2)]))"
    unfolding date_pattern_def seq.simps by (blast dest: lang_clause)
  from v(2) have "v \<in> lang (Cat (Rep is_digit 4 (Some 4)) (Cat (Lit 0x2D)
      (Cat (Rep is_digit 2 (Some 2)) (Cat (Lit 0x2D) (Rep is_digit 2 (Some 2))))))"
    by (simp only: seq.simps lang.simps)
  then obtain y r1 where 1: "v = y @ r1" "y \<in> lang (Rep is_digit 4 (Some 4))"
    "r1 \<in> lang (Cat (Lit 0x2D) (Cat (Rep is_digit 2 (Some 2)) (Cat (Lit 0x2D)
       (Rep is_digit 2 (Some 2)))))"
    by (rule lang_CatE)
  from 1(3) obtain h1 r2 where 2: "r1 = h1 @ r2" "h1 \<in> lang (Lit 0x2D)"
    "r2 \<in> lang (Cat (Rep is_digit 2 (Some 2)) (Cat (Lit 0x2D) (Rep is_digit 2 (Some 2))))"
    by (rule lang_CatE)
  from 2(3) obtain mo r3 where 3: "r2 = mo @ r3" "mo \<in> lang (Rep is_digit 2 (Some 2))"
    "r3 \<in> lang (Cat (Lit 0x2D) (Rep is_digit 2 (Some 2)))"
    by (rule lang_CatE)
  from 3(3) obtain h2 d where 4: "r3 = h2 @ d" "h2 \<in> lang (Lit 0x2D)"
    "d \<in> lang (Rep is_digit 2 (Some 2))"
    by (rule lang_CatE)
  have "clause t (y @ [0x2D] @ mo @ [0x2D] @ d)" using v(1) 1(1) 2(1,2) 3(1) 4(1,2) by simp
  then show ?thesis
    unfolding date_form_def
    using lang_exactly[OF 1(2)] lang_exactly[OF 3(2)] lang_exactly[OF 4(3)] by blast
qed

lemma parse_grammar:
  assumes "parseSimpleFilter (Some s) = Some p"
  shows "string_form (trim s) \<or> number_form (trim s) \<or> date_form (trim s)"
  using assms string_pattern_sound[of "trim s"] number_pattern_sound[of "trim s"]
    date_pattern_sound[of "trim s"]
  unfolding parseSimpleFilter_def
  by (auto simp: Let_def split: if_splits option.splits)

lemma rx_complete:
  "u \<in> lang r \<Longrightarrow> \<exists>m'. (s', m') \<in> set (rx r (u @ s', m))"
proof (induction r arbitrary: u s' m)
  case (Lit c)
  then show ?case by simp
next
  case (Rep p lo hi)
  let ?k = "length (takeWhile p (u @ s'))"
  let ?most = "case hi of None \<Rightarrow> ?k | Some h \<Rightarrow> min h ?k"
  from Rep have u: "list_all p u" "lo \<le> length u" "case hi of None \<Rightarrow> True | Some h \<Rightarrow> length u \<le> h"
    by simp_all
  from u(1) have "takeWhile p (u @ s') = u @ takeWhile p s'"
    by (simp add: takeWhile_append2 list_all_iff)
  then have "length u \<le> ?k" by simp
  with u(3) have "length u \<le> ?most" by (simp split: option.splits)
  with u(2) have "length u \<in> {lo ..< Suc ?most}" by simp
  then have "(drop (length u) (u @ s'), m) \<in> (\<lambda>n. (drop n (u @ s'), m)) ` {lo ..< Suc ?most}"
    by (rule imageI)
  then have "(s', m) \<in> set (map (\<lambda>n. (drop n (u @ s'), m)) (rev [lo ..< Suc ?most]))"
    by (simp only: set_map set_rev set_upt) simp
  then have "(s', m) \<in> set (rx (Rep p lo hi) (u @ s', m))"
    by (simp add: Let_def del: upt_Suc)
  then show ?case by blast
next
  case (Cat a b)
  then obtain x y where xy: "u = x @ y" "x \<in> lang a" "y \<in> lang b" by auto
  from Cat.IH(1)[OF xy(2), of "y @ s'" m] obtain m1 where 1: "(y @ s', m1) \<in> set (rx a (x @ y @ s', m))"
    by blast
  from Cat.IH(2)[OF xy(3), of s' m1] obtain m2 where 2: "(s', m2) \<in> set (rx b (y @ s', m1))"
    by blast
  from 1 2 have "(s', m2) \<in> set (rx (Cat a b) (u @ s', m))"
    unfolding xy(1) by (auto intro!: bexI[of _ "(y @ s', m1)"])
  then show ?case by blast
next
  case (Opt a)
  then have "u = [] \<or> u \<in> lang a" by simp
  then show ?case
  proof
    assume "u = []"
    then have "(s', m) \<in> set (rx (Opt a) (u @ s', m))" by simp
    then show ?thesis by blast
  next
    assume "u \<in> lang a"
    from Opt.IH[OF this, of s' m] show ?thesis by auto
  qed
next
  case (Grp i a)
  then have "u \<in> lang a" by simp
  from Grp.IH[OF this, of s' m] obtain m0 where "(s', m0) \<in> set (rx a (u @ s', m))" by blast
  then have "(\<lambda>(t, m'). (t, m'(i \<mapsto> take (length (u @ s') - length t) (u @ s')))) (s', m0)
      \<in> set (rx (Grp i a) (u @ s', m))"
    unfolding rx.simps set_map by (rule imageI)
  then show ?case by auto
qed

lemma regex_match_complete: "s \<in> lang r \<Longrightarrow> \<exists>m. regex_match r s = Some m"
proof -
  assume "s \<in> lang r"
  from rx_complete[OF this, of "[]" "\<lambda>i. None"] obtain m' where
    "([], m') \<in> set (rx r (s, \<lambda>i. None))" by auto
  then have "([], m') \<in> set (filter (\<lambda>(rest, m). rest = []) (rx r (s, \<lambda>i. None)))" by simp
  then show ?thesis
    unfolding regex_match_def
    by (cases "filter (\<lambda>(rest, m). rest = []) (rx r (s, \<lambda>i. None))") auto
qed


lemma lang_CatI: "x \<in> lang a \<Longrightarrow> y \<in> lang b \<Longrightarrow> x @ y \<in> lang (Cat a b)"
  by auto

lemma lang_LitI: "[c] \<in> lang (Lit c)"
  by simp

lemma some_lang: "xs \<noteq> [] \<Longrightarrow> list_all p xs \<Longrightarrow> xs \<in> lang (some p)"
  by (cases xs) (simp_all add: some_def)

lemma clause_lang:
  assumes "clause t v" "v \<in> lang R"
  shows "t \<in> lang (Cat (Grp 1 (some field_chars)) (Cat (some is_space) (Cat (Lit 0x65)
             (Cat (Lit 0x71) (Cat (some is_space) R)))))"
proof -
  from assms(1) obtain f w1 w2 where t: "t = f @ w1 @ [0x65] @ [0x71] @ w2 @ v"
    and f: "f \<noteq> []" "list_all is_word f" and w1: "w1 \<noteq> []" "list_all is_space w1"
    and w2: "w2 \<noteq> []" "list_all is_space w2"
    by (auto simp: clause_def grammar_field_def blank_def js_eq)
  have ff: "f \<in> lang (Grp 1 (some field_chars))"
    using f some_lang[of f field_chars] by (simp add: field_chars_word[abs_def])
  note 1 = lang_CatI[OF some_lang[OF w2] assms(2)]
  note 2 = lang_CatI[OF lang_LitI[of "0x71"] 1]
  note 3 = lang_CatI[OF lang_LitI[of "0x65"] 2]
  note 4 = lang_CatI[OF some_lang[OF w1] 3]
  from lang_CatI[OF ff 4] show ?thesis by (simp only: t)
qed

lemma string_pattern_complete:
  assumes "string_form t"
  shows "\<exists>m. regex_match string_pattern t = Some m"
proof -
  from assms obtain x where x: "clause t ([quote] @ x @ [quote])" "quote \<notin> set x"
    by (auto simp: string_form_def)
  have "x \<in> lang (Grp 2 (Rep (\<lambda>c. c \<noteq> quote) 0 None))"
    using x(2) by (auto simp: list_all_iff)
  note 1 = lang_CatI[OF this lang_LitI[of quote]]
  note 2 = lang_CatI[OF lang_LitI[of quote] 1]
  from clause_lang[OF x(1) 2] have "t \<in> lang string_pattern"
    by (simp only: string_pattern_def seq.simps)
  then show ?thesis by (rule regex_match_complete)
qed

lemma digits_lang: "digits ds \<Longrightarrow> ds \<in> lang (some is_digit)"
  by (simp add: digits_def some_lang)

lemma number_pattern_complete:
  assumes "number_form t"
  shows "\<exists>m. regex_match number_pattern t = Some m"
proof -
  from assms obtain sg ip fr where c: "clause t (sg @ ip @ fr)"
    and sg: "sg = [] \<or> sg = [0x2B] \<or> sg = [0x2D]" and ip: "digits ip"
    and fr: "fr = [] \<or> (\<exists>fp. fr = 0x2E # fp \<and> digits fp)"
    by (auto simp: number_form_def)
  have 1: "sg \<in> lang (Opt (Rep (\<lambda>c. c = 0x2B \<or> c = 0x2D) 1 (Some 1)))"
    using sg by auto
  have 3: "fr \<in> lang (Opt (Grp 3 (Cat (Lit 0x2E) (some is_digit))))"
  proof (cases "fr = []")
    case True
    then show ?thesis by simp
  next
    case False
    with fr obtain fp where fp: "fr = [0x2E] @ fp" "digits fp" by auto
    from lang_CatI[OF lang_LitI[of "0x2E"] digits_lang[OF fp(2)]]
    have "fr \<in> lang (Cat (Lit 0x2E) (some is_digit))" by (simp only: fp(1))
    then show ?thesis by simp
  qed
  note 4 = lang_CatI[OF digits_lang[OF ip] 3]
  from lang_CatI[OF 1 4] have "sg @ ip @ fr \<in> lang (Grp 2 (seq [Opt (Rep (\<lambda>c. c = 0x2B \<or> c = 0x2D) 1 (Some 1)),
      some is_digit, Opt (Grp 3 (seq [Lit 0x2E, some is_digit]))]))"
    by (simp only: seq.simps lang.simps)
  from clause_lang[OF c this] have "t \<in> lang number_pattern"
    by (simp only: number_pattern_def seq.simps)
  then show ?thesis by (rule regex_match_complete)
qed

lemma exactly_lang: "length ds = n \<Longrightarrow> list_all is_digit ds \<Longrightarrow> ds \<in> lang (Rep is_digit n (Some n))"
  by simp

lemma date_pattern_complete:
  assumes "date_form t"
  shows "\<exists>m. regex_match date_pattern t = Some m"
proof -
  from assms obtain y mo d where c: "clause t (y @ [0x2D] @ mo @ [0x2D] @ d)"
    and l: "length y = 4" "length mo = 2" "length d = 2"
    and a: "list_all is_digit y" "list_all is_digit mo" "list_all is_digit d"
    by (auto simp: date_form_def)
  note 1 = lang_CatI[OF lang_LitI[of "0x2D"] exactly_lang[OF l(3) a(3)]]
  note 2 = lang_CatI[OF exactly_lang[OF l(2) a(2)] 1]
  note 3 = lang_CatI[OF lang_LitI[of "0x2D"] 2]
  from lang_CatI[OF exactly_lang[OF l(1) a(1)] 3] have "y @ [0x2D] @ mo @ [0x2D] @ d \<in> lang (Grp 2 (seq [Rep is_digit 4 (Some 4), Lit 0x2D,
      Rep is_digit 2 (Some 2), Lit 0x2D, Rep is_digit 2 (Some 2)]))"
    by (simp only: seq.simps lang.simps)
  from clause_lang[OF c this] have "t \<in> lang date_pattern"
    by (simp only: date_pattern_def seq.simps)
  then show ?thesis by (rule regex_match_complete)
qed

lemma clause_nonempty: "clause s v \<Longrightarrow> s \<noteq> []"
  by (auto simp: clause_def grammar_field_def)

lemma trim_nonempty: "trim s \<noteq> [] \<Longrightarrow> s \<noteq> []"
  by (auto simp: trim_def)

lemma grammar_parse:
  assumes "string_form (trim s) \<or> number_form (trim s) \<or> date_form (trim s)"
  shows "parseSimpleFilter (Some s) \<noteq> None"
proof -
  from assms have "trim s \<noteq> []"
    by (auto simp: string_form_def number_form_def date_form_def dest: clause_nonempty)
  then have ne: "s \<noteq> []" by (rule trim_nonempty)
  from assms string_pattern_complete[of "trim s"] number_pattern_complete[of "trim s"]
    date_pattern_complete[of "trim s"]
  have "(\<exists>m. regex_match string_pattern (trim s) = Some m) \<or>
      (\<exists>m. regex_match number_pattern (trim s) = Some m) \<or>
      (\<exists>m. regex_match date_pattern (trim s) = Some m)" by blast
  with ne show ?thesis
    by (auto simp: parseSimpleFilter_def Let_def split: option.splits)
qed

lemma clause_has_q: "clause s v \<Longrightarrow> 0x71 \<in> set s"
  by (auto simp: clause_def js_eq)

text \<open>
  C1. The filter parser turns \<^verbatim>\<open>outlet eq 'Airport'\<close> into the string-equality predicate
  on \<^verbatim>\<open>outlet\<close> with value \<^verbatim>\<open>Airport\<close>, \<^verbatim>\<open>id eq 42\<close> into the number-equality
  predicate on \<^verbatim>\<open>id\<close> with value 42 and \<^verbatim>\<open>date eq 2025-08-01\<close> into the date-prefix
  predicate on \<^verbatim>\<open>date\<close> with value \<^verbatim>\<open>2025-08-01\<close>; and it returns null for every string
  that, once trimmed, has none of the three forms of the grammar (and only for those).
\<close>

theorem parseSimpleFilter_forms:
  "parseSimpleFilter (Some (js ''outlet eq 'Airport'' @ [quote])) =
     Some \<lparr>field = js ''outlet'', value = JStr (js ''Airport''), type = TString\<rparr> \<and>
   parseSimpleFilter (Some (js ''id eq 42'')) =
     Some \<lparr>field = js ''id'', value = JNum (Fin 42), type = TNumber\<rparr> \<and>
   parseSimpleFilter (Some (js ''date eq 2025-08-01'')) =
     Some \<lparr>field = js ''date'', value = JStr (js ''2025-08-01''), type = TDate\<rparr> \<and>
   (\<forall>s. \<not> string_form (trim s) \<and> \<not> number_form (trim s) \<and> \<not> date_form (trim s) \<longrightarrow>
      parseSimpleFilter (Some s) = None) \<and>
   (\<forall>s. string_form (trim s) \<or> number_form (trim s) \<or> date_form (trim s) \<longrightarrow>
      parseSimpleFilter (Some s) \<noteq> None)"
proof (intro conjI allI impI)
  show "parseSimpleFilter (Some (js ''outlet eq 'Airport'' @ [quote])) =
     Some \<lparr>field = js ''outlet'', value = JStr (js ''Airport''), type = TString\<rparr>"
    by code_simp
  show "parseSimpleFilter (Some (js ''id eq 42'')) =
     Some \<lparr>field = js ''id'', value = JNum (Fin 42), type = TNumber\<rparr>"
    by code_simp
  show "parseSimpleFilter (Some (js ''date eq 2025-08-01'')) =
     Some \<lparr>field = js ''date'', value = JStr (js ''2025-08-01''), type = TDate\<rparr>"
    by code_simp
next
  fix s
  assume none: "\<not> string_form (trim s) \<and> \<not> number_form (trim s) \<and> \<not> date_form (trim s)"
  show "parseSimpleFilter (Some s) = None"
  proof (cases "parseSimpleFilter (Some s)")
    case (Some p)
    from parse_grammar[OF this] none show ?thesis by blast
  qed simp
next
  fix s
  assume "string_form (trim s) \<or> number_form (trim s) \<or> date_form (trim s)"
  then show "parseSimpleFilter (Some s) \<noteq> None" by (rule grammar_parse)
qed

theorem parseSimpleFilter_forms_witness:
  "\<not> string_form (trim (js ''bogus'')) \<and> \<not> number_form (trim (js ''bogus'')) \<and>
   \<not> date_form (trim (js ''bogus'')) \<and> parseSimpleFilter (Some (js ''bogus'')) = None \<and>
   number_form (trim (js '' price  eq -12.50 '')) \<and>
   parseSimpleFilter (Some (js '' price  eq -12.50 '')) \<noteq> None"
proof -
  have t: "trim (js ''bogus'') = js ''bogus''"
    by (simp add: trim_def js_def is_space_def)
  have "0x71 \<notin> set (js ''bogus'')"
    by (simp add: js_def)
  then have "\<not> clause (js ''bogus'') v" for v
    using clause_has_q by blast
  then have none: "\<not> string_form (trim (js ''bogus'')) \<and> \<not> number_form (trim (js ''bogus'')) \<and>
      \<not> date_form (trim (js ''bogus''))"
    unfolding t string_form_def number_form_def date_form_def by blast
  have u: "trim (js '' price  eq -12.50 '') = js ''price'' @ js ''  '' @ js ''eq'' @ js '' '' @
      ([0x2D] @ js ''12'' @ (0x2E # js ''50''))"
    by (simp add: trim_def js_def is_space_def)
  have "clause (trim (js '' price  eq -12.50 '')) ([0x2D] @ js ''12'' @ (0x2E # js ''50''))"
    unfolding u clause_def
    by (intro exI[of _ "js ''price''"] exI[of _ "js ''  ''"] exI[of _ "js '' ''"])
      (simp add: grammar_field_def blank_def js_def is_word_def is_space_def is_digit_def)
  moreover have "digits (js ''12'')" "digits (js ''50'')"
    by (simp_all add: digits_def js_def is_digit_def)
  ultimately have some: "number_form (trim (js '' price  eq -12.50 ''))"
    unfolding number_form_def by blast
  from parseSimpleFilter_forms none some show ?thesis by blast
qed

section \<open>The normalizer: properties\<close>

lemma toNum_cases:
  "toNum None = Inr JNull" "toNum (Some JNull) = Inr JNull" "toNum (Some (JStr [])) = Inr JNull"
  by (simp_all add: toNum_def)

lemma toNum_plain:
  "(if (case v of None \<Rightarrow> True | Some j \<Rightarrow> plain j) then \<exists>x. toNum v = Inr x
    else toNum v = Inl not_primitive)"
proof (cases v)
  case None
  then show ?thesis by (simp add: toNum_def)
next
  case (Some j)
  with ToNumber_plain[of j] show ?thesis
    by (auto simp: toNum_def andThen_def split: if_splits)
qed

lemma entries_ok:
  assumes "list_all (entry_ok raw) ds"
  shows "\<exists>r. entries (JObj raw) ds = Inr r \<and> map fst r = map fst ds \<and>
     (\<forall>k. (k, Numeric) \<in> set ds \<and> distinct (map fst ds) \<and>
        (map_of raw k = None \<or> map_of raw k = Some JNull \<or> map_of raw k = Some (JStr []))
        \<longrightarrow> map_of r k = Some JNull)"
  using assms
proof (induction ds)
  case Nil
  then show ?case by simp
next
  case (Cons e ds)
  obtain k kind where e: "e = (k, kind)" by (cases e)
  from Cons obtain r where r: "entries (JObj raw) ds = Inr r" "map fst r = map fst ds"
    "\<forall>k. (k, Numeric) \<in> set ds \<and> distinct (map fst ds) \<and>
        (map_of raw k = None \<or> map_of raw k = Some JNull \<or> map_of raw k = Some (JStr []))
        \<longrightarrow> map_of r k = Some JNull"
    by auto
  from Cons.prems e have ok: "kind = Text \<or> (case map_of raw k of None \<Rightarrow> True | Some v \<Rightarrow> plain v)"
    by (simp add: entry_ok_def)
  obtain x where x: "(case kind of Numeric \<Rightarrow> toNum (map_of raw k) | Text \<Rightarrow> Inr (or_null (map_of raw k))) = Inr x"
    using ok toNum_plain[of "map_of raw k"] by (cases kind) (auto split: if_splits)
  have ent: "entries (JObj raw) (e # ds) = Inr ((k, x) # r)"
    using r(1) x by (simp add: e read_field_def)
  have null: "map_of ((k, x) # r) k' = Some JNull"
    if "(k', Numeric) \<in> set (e # ds)" "distinct (map fst (e # ds))"
      "map_of raw k' = None \<or> map_of raw k' = Some JNull \<or> map_of raw k' = Some (JStr [])" for k'
  proof (cases "k' = k")
    case True
    with that e have "(k, Numeric) \<in> set ds \<or> kind = Numeric" by auto
    moreover have "(k, Numeric) \<notin> set ds" using that(2) e by (auto simp: rev_image_eqI)
    ultimately have "kind = Numeric" by blast
    with x that(3) True have "x = JNull" by (auto simp: toNum_cases)
    with True show ?thesis by simp
  next
    case False
    with that e have "(k', Numeric) \<in> set ds" "distinct (map fst ds)" by auto
    with r(3) that(3) have "map_of r k' = Some JNull" by blast
    with False show ?thesis by simp
  qed
  show ?case using ent r(2) null e by (intro exI[of _ "(k, x) # r"]) auto
qed

lemma entries_fail:
  assumes "\<not> list_all (entry_ok raw) ds"
  shows "entries (JObj raw) ds = Inl not_primitive"
  using assms
proof (induction ds)
  case Nil
  then show ?case by simp
next
  case (Cons e ds)
  obtain k kind where e: "e = (k, kind)" by (cases e)
  show ?case
  proof (cases "entry_ok raw e")
    case True
    with Cons have rest: "entries (JObj raw) ds = Inl not_primitive" by simp
    from True e have "kind = Text \<or> (case map_of raw k of None \<Rightarrow> True | Some v \<Rightarrow> plain v)"
      by (simp add: entry_ok_def)
    then obtain x where "(case kind of Numeric \<Rightarrow> toNum (map_of raw k) | Text \<Rightarrow> Inr (or_null (map_of raw k))) = Inr x"
      using toNum_plain[of "map_of raw k"] by (cases kind) (auto split: if_splits)
    with rest show ?thesis by (simp add: e read_field_def)
  next
    case False
    with e have "kind = Numeric" "\<not> (case map_of raw k of None \<Rightarrow> True | Some v \<Rightarrow> plain v)"
      by (auto simp: entry_ok_def intro: field_kind.exhaust)
    with toNum_plain[of "map_of raw k"] have "toNum (map_of raw k) = Inl not_primitive"
      by (auto split: if_splits)
    with \<open>kind = Numeric\<close> show ?thesis by (simp add: e read_field_def)
  qed
qed

lemma entries_only_declared:
  assumes "\<forall>k \<in> set (map fst ds). map_of raw' k = map_of raw k"
  shows "entries (JObj raw') ds = entries (JObj raw) ds"
  using assms
proof (induction ds)
  case Nil
  then show ?case by simp
next
  case (Cons e ds)
  obtain k kind where e: "e = (k, kind)" by (cases e)
  from Cons have "entries (JObj raw') ds = entries (JObj raw) ds" "map_of raw' k = map_of raw k"
    by (auto simp: e)
  then show ?case by (simp add: e read_field_def split: sum.splits field_kind.splits)
qed

lemma keys_of_declared: "map fst declared = declared_keys"
  by (simp add: declared_def declared_keys_def)

lemma distinct_declared: "distinct (map fst declared)"
  by (simp add: declared_def js_inj)

lemma convertible_entry_ok: "convertible raw = list_all (entry_ok raw) declared"
  by (simp add: convertible_def numeric_fields_def declared_def entry_ok_def)

lemma numeric_declared: "k \<in> set numeric_fields \<Longrightarrow> (k, Numeric) \<in> set declared"
  by (auto simp: numeric_fields_def declared_def)


text \<open>
  C2, as amended. For every raw record whose numeric fields convert to primitives (in
  particular every flat record), the normalizer returns a record with exactly the twelve
  declared keys, in which every numeric field that was absent, null or the empty string
  is null; fields of the input that are not declared make no difference to the result.
  For every other raw record the conversion of a numeric field throws a TypeError.
\<close>

theorem normalizeItem_record:
  "(convertible raw \<longrightarrow>
      (\<exists>r. normalizeItem (JObj raw) = Inr r \<and> map fst r = declared_keys \<and>
         (\<forall>k \<in> set numeric_fields.
            map_of raw k = None \<or> map_of raw k = Some JNull \<or> map_of raw k = Some (JStr [])
            \<longrightarrow> map_of r k = Some JNull) \<and>
         (\<forall>raw'. (\<forall>k \<in> set declared_keys. map_of raw' k = map_of raw k)
            \<longrightarrow> normalizeItem (JObj raw') = Inr r))) \<and>
   (\<not> convertible raw \<longrightarrow> normalizeItem (JObj raw) = Inl not_primitive)"
proof (intro conjI impI)
  assume "convertible raw"
  then have "list_all (entry_ok raw) declared" by (simp add: convertible_entry_ok)
  from entries_ok[OF this] obtain r where r: "entries (JObj raw) declared = Inr r"
    "map fst r = map fst declared"
    "\<forall>k. (k, Numeric) \<in> set declared \<and> distinct (map fst declared) \<and>
        (map_of raw k = None \<or> map_of raw k = Some JNull \<or> map_of raw k = Some (JStr []))
        \<longrightarrow> map_of r k = Some JNull"
    by blast
  have 1: "normalizeItem (JObj raw) = Inr r" using r(1) by (simp add: normalizeItem_def)
  have 2: "map fst r = declared_keys" using r(2) by (simp add: keys_of_declared)
  have 3: "\<forall>k \<in> set numeric_fields.
            map_of raw k = None \<or> map_of raw k = Some JNull \<or> map_of raw k = Some (JStr [])
            \<longrightarrow> map_of r k = Some JNull"
    using r(3) numeric_declared distinct_declared by blast
  have 4: "\<forall>raw'. (\<forall>k \<in> set declared_keys. map_of raw' k = map_of raw k)
            \<longrightarrow> normalizeItem (JObj raw') = Inr r"
    using entries_only_declared[of declared _ raw] r(1)
    by (simp add: normalizeItem_def keys_of_declared)
  from 1 2 3 4 show "\<exists>r. normalizeItem (JObj raw) = Inr r \<and> map fst r = declared_keys \<and>
         (\<forall>k \<in> set numeric_fields.
            map_of raw k = None \<or> map_of raw k = Some JNull \<or> map_of raw k = Some (JStr [])
            \<longrightarrow> map_of r k = Some JNull) \<and>
         (\<forall>raw'. (\<forall>k \<in> set declared_keys. map_of raw' k = map_of raw k)
            \<longrightarrow> normalizeItem (JObj raw') = Inr r)"
    by blast
next
  assume "\<not> convertible raw"
  then have "\<not> list_all (entry_ok raw) declared" by (simp add: convertible_entry_ok)
  from entries_fail[OF this] show "normalizeItem (JObj raw) = Inl not_primitive"
    by (simp add: normalizeItem_def)
qed

text \<open>
  C2 as stated (the normalizer never fails, whatever the mapping) does not hold: a numeric
  field that holds an object with a key \<^verbatim>\<open>toString\<close> makes \<^verbatim>\<open>Number\<close> throw.
\<close>

theorem normalizeItem_throws:
  "normalizeItem (JObj [(js ''id'', JObj [(js ''toString'', JNum (Fin 1))])]) = Inl not_primitive"
  by code_simp


theorem normalizeItem_record_witness:
  "convertible sample_raw \<and>
   (\<exists>r. normalizeItem (JObj sample_raw) = Inr r \<and> map fst r = declared_keys \<and>
      map_of r (js ''quantity'') = Some JNull \<and> map_of r (js ''profit'') = Some JNull \<and>
      normalizeItem (JObj (tl sample_raw)) \<noteq> Inr r \<and>
      normalizeItem (JObj (butlast sample_raw)) = Inr r) \<and>
   \<not> convertible [(js ''profit'', JArr [JObj [(js ''toString'', JNull)]])] \<and>
   normalizeItem (JObj [(js ''profit'', JArr [JObj [(js ''toString'', JNull)]])]) = Inl not_primitive"
proof -
  have c: "convertible sample_raw" by code_simp
  have n: "\<not> convertible [(js ''profit'', JArr [JObj [(js ''toString'', JNull)]])]" by code_simp
  from c normalizeItem_record[of sample_raw] obtain r where r:
    "normalizeItem (JObj sample_raw) = Inr r" "map fst r = declared_keys"
    "\<forall>k \<in> set numeric_fields.
        map_of sample_raw k = None \<or> map_of sample_raw k = Some JNull \<or>
        map_of sample_raw k = Some (JStr []) \<longrightarrow> map_of r k = Some JNull"
    "\<forall>raw'. (\<forall>k \<in> set declared_keys. map_of raw' k = map_of sample_raw k)
        \<longrightarrow> normalizeItem (JObj raw') = Inr r"
    by blast
  have q: "js ''quantity'' \<in> set numeric_fields" "map_of sample_raw (js ''quantity'') = Some (JStr [])"
    by code_simp+
  have p: "js ''profit'' \<in> set numeric_fields" "map_of sample_raw (js ''profit'') = None"
    by code_simp+
  have 1: "map_of r (js ''quantity'') = Some JNull" using r(3) q by blast
  have 2: "map_of r (js ''profit'') = Some JNull" using r(3) p by blast
  have "list_all (\<lambda>k. map_of (butlast sample_raw) k = map_of sample_raw k) declared_keys"
    by code_simp
  then have 3: "normalizeItem (JObj (butlast sample_raw)) = Inr r"
    using r(4) by (simp add: list_all_iff)
  have "normalizeItem (JObj (tl sample_raw)) \<noteq> normalizeItem (JObj sample_raw)"
    by code_simp
  then have 4: "normalizeItem (JObj (tl sample_raw)) \<noteq> Inr r" using r(1) by simp
  from n normalizeItem_record[of "[(js ''profit'', JArr [JObj [(js ''toString'', JNull)]])]"]
  have 5: "normalizeItem (JObj [(js ''profit'', JArr [JObj [(js ''toString'', JNull)]])]) = Inl not_primitive"
    by blast
  from c r(1,2) 1 2 3 4 n 5 show ?thesis by blast
qed

section \<open>The query pipeline: properties\<close>

subsection \<open>The order of the stages\<close>

text \<open>
  C3. For every list of normalized records and every combination of parameters, the
  result set of the pipeline is what filtering the list, then sorting what was kept, then
  skipping, then taking the top gives; for the records with ids 1 to 5,
  \<^verbatim>\<open>$orderby=id desc&$skip=1&$top=2\<close> yields those with ids 4 and 3.
\<close>

theorem pipeline_order:
  "result_set req xs =
     andThen (filter_stage req xs) (\<lambda>kept.
       andThen (order_stage req kept) (\<lambda>sorted. Inr (top_stage req (skip_stage req sorted)))) \<and>
   result_set
     (plain_request\<lparr>orderby_param := Some (js ''id desc''), skip_param := Some (js ''1''),
        top_param := Some (js ''2'')\<rparr>)
     (map with_id [1, 2, 3, 4, 5]) = Inr (map with_id [4, 3])"
proof
  show "result_set req xs =
     andThen (filter_stage req xs) (\<lambda>kept.
       andThen (order_stage req kept) (\<lambda>sorted. Inr (top_stage req (skip_stage req sorted))))"
    by (rule result_set_stages)
  show "result_set
     (plain_request\<lparr>orderby_param := Some (js ''id desc''), skip_param := Some (js ''1''),
        top_param := Some (js ''2'')\<rparr>)
     (map with_id [1, 2, 3, 4, 5]) = Inr (map with_id [4, 3])"
    by code_simp
qed

theorem pipeline_order_witness:
  "result_set
     (plain_request\<lparr>filter_param := Some (js ''outlet eq 'Airport'' @ [quote]),
        orderby_param := Some (js ''id desc''), skip_param := Some (js ''1''),
        top_param := Some (js ''1'')\<rparr>)
     [sale 1 ''Airport'', sale 2 ''City'', sale 3 ''Airport'', sale 4 ''Airport'', sale 5 ''City'']
   = Inr [sale 3 ''Airport'']"
proof -
  let ?req = "plain_request\<lparr>filter_param := Some (js ''outlet eq 'Airport'' @ [quote]),
        orderby_param := Some (js ''id desc''), skip_param := Some (js ''1''),
        top_param := Some (js ''1'')\<rparr>"
  let ?xs = "[sale 1 ''Airport'', sale 2 ''City'', sale 3 ''Airport'', sale 4 ''Airport'',
        sale 5 ''City'']"
  have f: "filter_stage ?req ?xs = Inr [sale 1 ''Airport'', sale 3 ''Airport'', sale 4 ''Airport'']"
    by code_simp
  have o: "order_stage ?req [sale 1 ''Airport'', sale 3 ''Airport'', sale 4 ''Airport''] =
      Inr [sale 4 ''Airport'', sale 3 ''Airport'', sale 1 ''Airport'']"
    by code_simp
  have s: "skip_stage ?req [sale 4 ''Airport'', sale 3 ''Airport'', sale 1 ''Airport''] =
      [sale 3 ''Airport'', sale 1 ''Airport'']"
    by code_simp
  have t: "top_stage ?req [sale 3 ''Airport'', sale 1 ''Airport''] = [sale 3 ''Airport'']"
    by code_simp
  from pipeline_order[of ?req ?xs] have "result_set ?req ?xs =
     andThen (filter_stage ?req ?xs) (\<lambda>kept.
       andThen (order_stage ?req kept) (\<lambda>sorted. Inr (top_stage ?req (skip_stage ?req sorted))))"
    by (rule conjunct1)
  then show ?thesis by (simp only: f o s t andThen_def sum.case)
qed

subsection \<open>Skip\<close>




subsection \<open>Order\<close>












subsection \<open>Malformed parameters\<close>




subsection \<open>What the pipeline does to the arrays\<close>

lemma filter_frame:
  assumes "apply_filter req (st, a) = Inr (st1, a1)"
  shows "fresh st \<le> fresh st1 \<and> (\<forall>b. b < fresh st \<longrightarrow> cells st1 b = cells st b) \<and>
     (if parseSimpleFilter (filter_param req) = None then st1 = st \<and> a1 = a
      else a1 = fresh st \<and> fresh st1 = Suc (fresh st))"
  using assms
  by (auto simp: apply_filter_def alloc_def andThen_def split: option.splits sum.splits)

lemma orderby_frame:
  assumes "apply_orderby req (st, a) = Inr (st1, a1)"
  shows "fresh st1 = fresh st \<and> a1 = a \<and> (\<forall>b. b \<noteq> a \<longrightarrow> cells st1 b = cells st b) \<and>
     order_stage req (cells st a) = Inr (cells st1 a)"
  using assms
  by (auto simp: apply_orderby_def order_stage_def andThen_def Let_def split: if_splits sum.splits)

lemma skip_frame:
  assumes "apply_skip req (st, a) = Inr (st1, a1)"
  shows "fresh st \<le> fresh st1 \<and> (\<forall>b. b < fresh st \<longrightarrow> cells st1 b = cells st b) \<and>
     (if truthy (skip_param req) then a1 = fresh st \<and> fresh st1 = Suc (fresh st)
      else st1 = st \<and> a1 = a)"
  using assms by (auto simp: apply_skip_def alloc_def split: if_splits)

lemma top_frame:
  assumes "apply_top req (st, a) = Inr (st1, a1)"
  shows "fresh st \<le> fresh st1 \<and> (\<forall>b. b < fresh st \<longrightarrow> cells st1 b = cells st b) \<and>
     (if truthy (top_param req) then a1 = fresh st \<and> fresh st1 = Suc (fresh st)
      else st1 = st \<and> a1 = a)"
  using assms by (auto simp: apply_top_def alloc_def split: if_splits)

lemma pipeline_steps:
  assumes "pipeline req s = Inr s4"
  obtains s1 s2 s3 where "apply_filter req s = Inr s1" "apply_orderby req s1 = Inr s2"
    "apply_skip req s2 = Inr s3" "apply_top req s3 = Inr s4"
  using assms by (auto simp: pipeline_def andThen_def split: sum.splits)

text \<open>
  C9, as amended. Filter, skip and top return a new collection and change no existing
  one; order sorts the collection it is given in place. So, whenever the pipeline runs to
  its end, every collection other than the one it was given is unchanged, and the
  normalized source sequence it was given is unchanged too when a filter predicate was
  parsed or no \<^verbatim>\<open>$orderby\<close> was given; with an \<^verbatim>\<open>$orderby\<close> and no parsed filter the source
  sequence is left sorted. The result is the given collection itself only when no
  filter was parsed and neither skip nor top was given, and a new collection otherwise.
\<close>

theorem source_sequence:
  assumes "pipeline req (st, a) = Inr (st', a')" "a < fresh st"
  shows "(\<forall>b. b < fresh st \<and> b \<noteq> a \<longrightarrow> cells st' b = cells st b) \<and>
     (parseSimpleFilter (filter_param req) \<noteq> None \<or> \<not> truthy (orderby_param req) \<longrightarrow>
        cells st' a = cells st a) \<and>
     (parseSimpleFilter (filter_param req) = None \<and> truthy (orderby_param req) \<longrightarrow>
        order_stage req (cells st a) = Inr (cells st' a)) \<and>
     ((a' = a) = (parseSimpleFilter (filter_param req) = None \<and> \<not> truthy (skip_param req) \<and>
        \<not> truthy (top_param req))) \<and>
     (a' \<noteq> a \<longrightarrow> fresh st \<le> a')"
proof -
  from assms(1) obtain s1 s2 s3 where steps: "apply_filter req (st, a) = Inr s1"
    "apply_orderby req s1 = Inr s2" "apply_skip req s2 = Inr s3" "apply_top req s3 = Inr (st', a')"
    by (rule pipeline_steps)
  obtain st1 a1 where s1: "s1 = (st1, a1)" by (cases s1)
  obtain st2 a2 where s2: "s2 = (st2, a2)" by (cases s2)
  obtain st3 a3 where s3: "s3 = (st3, a3)" by (cases s3)
  note f = filter_frame[OF steps(1)[unfolded s1]]
  note ob = orderby_frame[OF steps(2)[unfolded s1 s2]]
  note sk = skip_frame[OF steps(3)[unfolded s2 s3]]
  note tp = top_frame[OF steps(4)[unfolded s3]]
  have a1: "a1 = a \<or> a1 = fresh st" "a1 < fresh st1" using f assms(2) by (auto split: if_splits)
  have late: "cells st' b = cells st2 b" if "b < fresh st2" for b
    using that sk tp by (auto split: if_splits)
  have early: "cells st2 b = cells st b" if "b < fresh st" "b \<noteq> a1" for b
    using that f ob by (auto split: if_splits)
  have fr: "fresh st \<le> fresh st2" using f ob by simp
  have 1: "\<forall>b. b < fresh st \<and> b \<noteq> a \<longrightarrow> cells st' b = cells st b"
    using late early fr a1(1) by (metis less_le_trans nat_less_le)
  have 2: "cells st' a = cells st a"
    if "parseSimpleFilter (filter_param req) \<noteq> None \<or> \<not> truthy (orderby_param req)"
  proof (cases "parseSimpleFilter (filter_param req) = None")
    case True
    with that have nt: "\<not> truthy (orderby_param req)" by simp
    from True f have "st1 = st" "a1 = a" by simp_all
    with ob nt have "cells st2 a = cells st a" by (simp add: order_stage_def)
    moreover have "cells st' a = cells st2 a" using late assms(2) fr by simp
    ultimately show ?thesis by simp
  next
    case False
    with f have "a1 = fresh st" by simp
    with assms(2) have "a \<noteq> a1" by simp
    with early assms(2) have "cells st2 a = cells st a" by simp
    moreover have "cells st' a = cells st2 a" using late assms(2) fr by simp
    ultimately show ?thesis by simp
  qed
  have 3: "order_stage req (cells st a) = Inr (cells st' a)"
    if "parseSimpleFilter (filter_param req) = None \<and> truthy (orderby_param req)"
  proof -
    from that f have "st1 = st" "a1 = a" by simp_all
    with ob have "order_stage req (cells st a) = Inr (cells st2 a)" by simp
    moreover have "cells st' a = cells st2 a" using late assms(2) fr by simp
    ultimately show ?thesis by simp
  qed
  have a2: "a2 = a1" "fresh st2 = fresh st1" using ob by simp_all
  have 4: "(a' = a) = (parseSimpleFilter (filter_param req) = None \<and> \<not> truthy (skip_param req) \<and>
        \<not> truthy (top_param req))"
    using f sk tp a2 assms(2) by (auto split: if_splits)
  have 5: "a' \<noteq> a \<longrightarrow> fresh st \<le> a'"
    using f sk tp a2 assms(2) by (auto split: if_splits)
  from 1 2 3 4 5 show ?thesis by blast
qed

text \<open>
  C9 as stated (the source sequence is unchanged after the pipeline) does not hold: with
  \<^verbatim>\<open>$orderby=id desc\<close> and no filter, \<^verbatim>\<open>items.sort\<close> reorders the normalized array itself.
\<close>

theorem sorted_in_place:
  "given_after (plain_request\<lparr>orderby_param := Some (js ''id desc'')\<rparr>) [with_id 1, with_id 2] =
     Inr [with_id 2, with_id 1] \<and>
   [with_id 2, with_id 1] \<noteq> [with_id 1, with_id 2]"
  by code_simp


theorem source_sequence_witness:
  "parseSimpleFilter (filter_param (plain_request\<lparr>filter_param := Some (js ''id eq 2''),
      orderby_param := Some (js ''id desc''), top_param := Some (js ''1'')\<rparr>)) \<noteq> None \<and>
   given_after (plain_request\<lparr>filter_param := Some (js ''id eq 2''),
      orderby_param := Some (js ''id desc''), top_param := Some (js ''1'')\<rparr>)
     [with_id 1, with_id 2] = Inr [with_id 1, with_id 2] \<and>
   truthy (orderby_param (plain_request\<lparr>orderby_param := Some (js ''id desc'')\<rparr>)) \<and>
   given_after (plain_request\<lparr>orderby_param := Some (js ''id desc'')\<rparr>) [with_id 1, with_id 2] =
     order_stage (plain_request\<lparr>orderby_param := Some (js ''id desc'')\<rparr>) [with_id 1, with_id 2]"
proof -
  let ?req = "plain_request\<lparr>filter_param := Some (js ''id eq 2''),
      orderby_param := Some (js ''id desc''), top_param := Some (js ''1'')\<rparr>"
  let ?req' = "plain_request\<lparr>orderby_param := Some (js ''id desc'')\<rparr>"
  let ?xs = "[with_id 1, with_id 2]"
  obtain st where st: "alloc empty_store ?xs = (st, 0)" "cells st 0 = ?xs" "0 < fresh st"
    by (simp add: alloc_def empty_store_def)
  have f: "parseSimpleFilter (filter_param ?req) \<noteq> None" by code_simp
  have "\<not> isl (pipeline ?req (alloc empty_store ?xs))" by code_simp
  then obtain st' a' where p: "pipeline ?req (st, 0) = Inr (st', a')"
    unfolding st(1) by (cases "pipeline ?req (st, 0)") auto
  from source_sequence[OF p st(3)] f have "cells st' 0 = cells st 0" by blast
  then have 1: "given_after ?req ?xs = Inr ?xs"
    by (simp add: given_after_def st(1,2) p andThen_def)
  have f': "parseSimpleFilter (filter_param ?req') = None" by (simp add: plain_request_def parseSimpleFilter_def)
  have t': "truthy (orderby_param ?req')" by (simp add: truthy_def js_def)
  have "\<not> isl (pipeline ?req' (alloc empty_store ?xs))" by code_simp
  then obtain st'' a'' where p': "pipeline ?req' (st, 0) = Inr (st'', a'')"
    unfolding st(1) by (cases "pipeline ?req' (st, 0)") auto
  from source_sequence[OF p' st(3)] f' t' have "order_stage ?req' (cells st 0) = Inr (cells st'' 0)"
    by blast
  then have 2: "given_after ?req' ?xs = order_stage ?req' ?xs"
    by (simp add: given_after_def st(1,2) p' andThen_def)
  from f 1 t' 2 show ?thesis by blast
qed

subsection \<open>Null against zero\<close>

text \<open>
  C10. For every record whose targeted field is null, the number-equality predicate with
  value 0 holds, so filtering a list by it retains the record: the filter converts the
  field to a number before comparing and null converts to 0. \<^verbatim>\<open>$filter=id eq 0\<close> parses
  to such a predicate.
\<close>

theorem null_equals_zero:
  "(get_property r f = Json JNull \<longrightarrow>
      filter_callback \<lparr>field = f, value = JNum (Fin 0), type = TNumber\<rparr> r = Inr True \<and>
      (\<forall>xs ys. r \<in> set xs \<and>
         filter_array (filter_callback \<lparr>field = f, value = JNum (Fin 0), type = TNumber\<rparr>) xs = Inr ys
         \<longrightarrow> r \<in> set ys)) \<and>
   parseSimpleFilter (Some (js ''id eq 0'')) =
     Some \<lparr>field = js ''id'', value = JNum (Fin 0), type = TNumber\<rparr>"
proof (intro conjI impI allI)
  assume n: "get_property r f = Json JNull"
  then show c: "filter_callback \<lparr>field = f, value = JNum (Fin 0), type = TNumber\<rparr> r = Inr True"
    by (simp add: filter_callback_def ToNumber_def andThen_def num_eq_def)
  fix xs ys
  assume "r \<in> set xs \<and>
     filter_array (filter_callback \<lparr>field = f, value = JNum (Fin 0), type = TNumber\<rparr>) xs = Inr ys"
  then show "r \<in> set ys" using filter_array_keeps c by blast
next
  show "parseSimpleFilter (Some (js ''id eq 0'')) =
     Some \<lparr>field = js ''id'', value = JNum (Fin 0), type = TNumber\<rparr>"
    by code_simp
qed

theorem null_equals_zero_witness:
  "get_property (transaction JNull JNull) (js ''id'') = Json JNull \<and>
   after (apply_filter (plain_request\<lparr>filter_param := Some (js ''id eq 0'')\<rparr>))
     [with_id 4, transaction JNull JNull, with_id 0] = Inr [transaction JNull JNull, with_id 0] \<and>
   transaction JNull JNull \<in> set [transaction JNull JNull, with_id 0]"
proof -
  let ?r = "transaction JNull JNull"
  let ?p = "\<lparr>field = js ''id'', value = JNum (Fin 0), type = TNumber\<rparr>"
  have g: "get_property ?r (js ''id'') = Json JNull" by code_simp
  have a: "after (apply_filter (plain_request\<lparr>filter_param := Some (js ''id eq 0'')\<rparr>))
     [with_id 4, ?r, with_id 0] = Inr [?r, with_id 0]"
    by code_simp
  have fa: "filter_array (filter_callback ?p) [with_id 4, ?r, with_id 0] = Inr [?r, with_id 0]"
    by code_simp
  have "?r \<in> set [with_id 4, ?r, with_id 0]" by simp
  with null_equals_zero[of ?r "js ''id''"] g fa have "?r \<in> set [?r, with_id 0]" by blast
  with g a show ?thesis by blast
qed

section \<open>The endpoint: properties\<close>

lemma catch_no_count: "odata_count (catch e) = None"
  by (simp add: catch_def odata_count_def)

lemma handler_success:
  assumes "ms < 10000" "200 \<le> st" "st < 300"
    "map_array normalizeItem (as_array data) = Inr xs" "result_set req xs = Inr items"
  shows "handler req (Settles ms (Responded st (Parsed data))) =
     \<lparr>status = 200, body = odataResponse req items\<rparr>"
proof -
  obtain st0 a0 where s0: "alloc empty_store xs = (st0, a0)" by (cases "alloc empty_store xs")
  from assms(5) obtain st' a' where p: "pipeline req (st0, a0) = Inr (st', a')" "cells st' a' = items"
    by (auto simp: result_set_def after_def andThen_def s0 split: sum.splits)
  show ?thesis
    using assms(1-4) p by (simp add: handler_def await_fetch_def andThen_def s0)
qed

lemma odata_count_response:
  "odata_count \<lparr>status = s, body = odataResponse req items\<rparr> =
     (if count_param req = Some (js ''true'') then Some (length items) else None)"
  by (simp add: odata_count_def odataResponse_def)

lemma odata_count_error: "odata_count \<lparr>status = s, body = ErrorBody m u\<rparr> = None"
  by (simp add: odata_count_def)

lemma handler_count: "odata_count (handler req f) \<noteq> None \<Longrightarrow> count_param req = Some (js ''true'')"
  unfolding handler_def
  by (auto simp: catch_no_count odata_count_response odata_count_error
      split: settled.splits payload.splits sum.splits if_splits)

text \<open>
  C4. When the upstream answers and the pipeline returns a result set, the response
  carries \<^verbatim>\<open>@odata.count\<close> exactly when the raw \<^verbatim>\<open>$count\<close> is the string \<^verbatim>\<open>true\<close>, and its
  value is the length of the result set, the one left after filter, order, skip and top;
  no response carries the field for another \<^verbatim>\<open>$count\<close>. Five records with \<^verbatim>\<open>$top=2\<close>
  give a value of length 2 and the count 2.
\<close>

theorem count_after_paging:
  "(\<forall>(ms::nat) (st::nat) data xs items.
      ms < 10000 \<and> 200 \<le> st \<and> st < 300 \<and> map_array normalizeItem (as_array data) = Inr xs \<and>
      result_set req xs = Inr items \<longrightarrow>
      handler req (Settles ms (Responded st (Parsed data))) =
        \<lparr>status = 200,
         body = ODataBody (odata_context req) items
           (if count_param req = Some (js ''true'') then Some (length items) else None)\<rparr>) \<and>
   (\<forall>f. odata_count (handler req f) \<noteq> None \<longrightarrow> count_param req = Some (js ''true'')) \<and>
   length (odata_value (handler (plain_request\<lparr>top_param := Some (js ''2''), count_param := Some (js ''true'')\<rparr>)
     (Settles 120 (Responded 200 (Parsed (JArr (map (\<lambda>n. JObj [(js ''id'', JNum (Fin n))]) [1, 2, 3, 4, 5]))))))) = 2 \<and>
   odata_count (handler (plain_request\<lparr>top_param := Some (js ''2''), count_param := Some (js ''true'')\<rparr>)
     (Settles 120 (Responded 200 (Parsed (JArr (map (\<lambda>n. JObj [(js ''id'', JNum (Fin n))]) [1, 2, 3, 4, 5])))))) = Some 2"
proof (intro conjI allI impI)
  fix ms st :: nat and data xs items
  assume "ms < 10000 \<and> 200 \<le> st \<and> st < 300 \<and> map_array normalizeItem (as_array data) = Inr xs \<and>
      result_set req xs = Inr items"
  then show "handler req (Settles ms (Responded st (Parsed data))) =
        \<lparr>status = 200,
         body = ODataBody (odata_context req) items
           (if count_param req = Some (js ''true'') then Some (length items) else None)\<rparr>"
    using handler_success[of ms st data xs req items] by (simp add: odataResponse_def)
next
  fix f assume "odata_count (handler req f) \<noteq> None"
  then show "count_param req = Some (js ''true'')" by (rule handler_count)
next
  show "length (odata_value (handler (plain_request\<lparr>top_param := Some (js ''2''), count_param := Some (js ''true'')\<rparr>)
     (Settles 120 (Responded 200 (Parsed (JArr (map (\<lambda>n. JObj [(js ''id'', JNum (Fin n))]) [1, 2, 3, 4, 5]))))))) = 2"
    by code_simp
  show "odata_count (handler (plain_request\<lparr>top_param := Some (js ''2''), count_param := Some (js ''true'')\<rparr>)
     (Settles 120 (Responded 200 (Parsed (JArr (map (\<lambda>n. JObj [(js ''id'', JNum (Fin n))]) [1, 2, 3, 4, 5])))))) = Some 2"
    by code_simp
qed

theorem count_after_paging_witness:
  "handler (plain_request\<lparr>skip_param := Some (js ''1''), count_param := Some (js ''true'')\<rparr>)
     (Settles 35 (Responded 200 (Parsed (JArr [JObj [(js ''id'', JNum (Fin 1))], JObj [(js ''id'', JNum (Fin 2))]])))) =
     \<lparr>status = 200,
      body = ODataBody (js ''http://localhost:3000/odata/$metadata#Transactions'') [with_id 2] (Some 1)\<rparr> \<and>
   odata_count (handler (plain_request\<lparr>skip_param := Some (js ''1''), count_param := Some (js ''true'')\<rparr>)
     (Settles 35 (Responded 200 (Parsed (JArr [JObj [(js ''id'', JNum (Fin 1))], JObj [(js ''id'', JNum (Fin 2))]]))))) \<noteq> None \<and>
   count_param (plain_request\<lparr>skip_param := Some (js ''1''), count_param := Some (js ''true'')\<rparr>) = Some (js ''true'')"
proof -
  let ?req = "plain_request\<lparr>skip_param := Some (js ''1''), count_param := Some (js ''true'')\<rparr>"
  let ?data = "JArr [JObj [(js ''id'', JNum (Fin 1))], JObj [(js ''id'', JNum (Fin 2))]]"
  have n: "map_array normalizeItem (as_array ?data) = Inr [with_id 1, with_id 2]"
    by code_simp
  have r: "result_set ?req [with_id 1, with_id 2] = Inr [with_id 2]"
    by code_simp
  have c: "odata_context ?req = js ''http://localhost:3000/odata/$metadata#Transactions''"
    by code_simp
  have t: "count_param ?req = Some (js ''true'')" by (simp add: plain_request_def)
  from count_after_paging[of ?req] n r
  have h: "handler ?req (Settles 35 (Responded 200 (Parsed ?data))) =
      \<lparr>status = 200, body = ODataBody (odata_context ?req) [with_id 2]
         (if count_param ?req = Some (js ''true'') then Some (length [with_id 2]) else None)\<rparr>"
    by simp
  then have 1: "handler ?req (Settles 35 (Responded 200 (Parsed ?data))) =
      \<lparr>status = 200, body = ODataBody (js ''http://localhost:3000/odata/$metadata#Transactions'') [with_id 2] (Some 1)\<rparr>"
    unfolding c t by simp
  have 2: "odata_count (handler ?req (Settles 35 (Responded 200 (Parsed ?data)))) \<noteq> None"
    unfolding 1 by (simp add: odata_count_def)
  from 1 2 t show ?thesis by blast
qed




end
